theory Spec2Isabelle
  imports Complex_Main "HOL-Library.Word"
begin

section \<open>Node reordering between firedrake and meshmode\<close>

text \<open>
  A shallow embedding of \<^verbatim>\<open>FunctionSpaceAnalog\<close>
  (\<^verbatim>\<open>firedrake_to_pytential/analogs/function_space.py\<close>) and of
  \<^verbatim>\<open>OpConnection\<close> (\<^verbatim>\<open>firedrake_to_pytential/op.py\<close>).

  What firedrake, finat, meshmode and pytential hand to this code is data of the model:
  the cell node list, the orientations, the flip matrix, the vertex indices, the
  exterior facet markers, the boundary nodes and the output of the bound operator.
  Every exception the modelled code can raise is a value of \<open>error\<close>; a
  computation returns \<open>error + result\<close> and stops at the first error. A method
  that changes the object returns the changed object with its result. Attributes
  that Python spells with a leading underscore lose it here.
\<close>

subsection \<open>Errors\<close>

datatype error =
  ValueError string
  | AssertionError
  | IndexError
  | ZeroDivisionError
  | TypeError

abbreviation zero_size_msg :: string where
  "zero_size_msg \<equiv> ''zero-size array to reduction operation maximum which has no identity''"

abbreviation on_bdy_msg :: string where
  "on_bdy_msg \<equiv> ''Currently can only do OnBdy for degree 1''"

abbreviation not_aligned_msg :: string where
  "not_aligned_msg \<equiv> ''shapes not aligned''"

abbreviation broadcast_msg :: string where
  "broadcast_msg \<equiv> ''operands could not be broadcast together''"

abbreviation reshape_msg :: string where
  "reshape_msg \<equiv> ''cannot reshape array''"

subsection \<open>The numpy operations the code uses\<close>

text \<open>
  \<^verbatim>\<open>np.rint\<close> rounds to the nearest integer and a tie to the even neighbour. The flip
  matrix is a matrix of rationals; its rounding is a matrix of binary64 numbers that
  are integers, kept here as integers. The flip step applies it to node numbers in
  integer arithmetic (binary64 is exact on integers below \<open>2^53\<close> in magnitude); the
  check of the matrix multiplies it by itself in binary64, with the rounding written
  out below.
\<close>

definition rint :: "rat \<Rightarrow> int" where
  "rint x =
     (let f = \<lfloor>x\<rfloor>; d = x - of_int f
      in if d < 1 / 2 then f
         else if 1 / 2 < d then f + 1
         else if even f then f else f + 1)"

definition arange :: "nat \<Rightarrow> int list" where
  "arange n = map int [0..<n]"

definition dot_vec :: "'a::comm_ring_1 list \<Rightarrow> 'a list \<Rightarrow> 'a" where
  "dot_vec r v = sum_list (map2 (*) r v)"

text \<open>\<^verbatim>\<open>np.einsum("ij,ej->ei", flip_mat, rows)\<close> for one row \<open>e\<close>.\<close>

definition mat_vec :: "'a::comm_ring_1 list list \<Rightarrow> 'a list \<Rightarrow> 'a list" where
  "mat_vec M v = map (\<lambda>r. dot_vec r v) M"

definition is_square :: "'a list list \<Rightarrow> bool" where
  "is_square M = list_all (\<lambda>r. length r = length M) M"

text \<open>Transpose, product and identity of square matrices (a list of rows).\<close>

definition np_T :: "'a list list \<Rightarrow> 'a list list" where
  "np_T M = map (\<lambda>j. map (\<lambda>r. r ! j) M) [0..<length M]"

definition np_dot :: "'a::comm_ring_1 list list \<Rightarrow> 'a list list \<Rightarrow> 'a list list" where
  "np_dot A B = map (\<lambda>r. map (\<lambda>j. dot_vec r (map (\<lambda>s. s ! j) B)) [0..<length B]) A"

definition np_eye :: "nat \<Rightarrow> 'a::comm_ring_1 list list" where
  "np_eye n = map (\<lambda>i. map (\<lambda>j. if i = j then 1 else 0) [0..<n]) [0..<n]"

definition mat_sub :: "'a::comm_ring_1 list list \<Rightarrow> 'a list list \<Rightarrow> 'a list list" where
  "mat_sub A B = map2 (map2 (-)) A B"

text \<open>
  \<^verbatim>\<open>la.norm(D) < 1e-13\<close> for a matrix of integers: the Frobenius norm is the square
  root of the sum of the squared entries, so the test is that this sum is below the
  square of the bound.
\<close>

definition frobenius_sq :: "int list list \<Rightarrow> int" where
  "frobenius_sq D = sum_list (map (\<lambda>r. sum_list (map (\<lambda>x. x * x) r)) D)"

definition norm_below :: "int list list \<Rightarrow> bool" where
  "norm_below D = (rat_of_int (frobenius_sq D) < (1 / 10 ^ 13) ^ 2)"

text \<open>
  Binary64 on integers. \<open>fl64 v\<close> is the binary64 number nearest to the integer
  \<open>v\<close>, a tie going to the even significand: \<open>v\<close> itself up to \<open>2^53\<close> in
  magnitude, beyond that a multiple of the power of two that leaves 53 bits
  (\<open>bit_length\<close> counts the bits of a positive integer), and \<open>None\<close> when the
  result is an infinity. Every product and every sum of binary64
  integers is the rounding of an integer, so nothing else is needed here.
\<close>

function bit_length :: "int \<Rightarrow> nat" where
  "bit_length v = (if v \<le> 0 then 0 else Suc (bit_length (v div 2)))"
  by auto
termination
  by (relation "measure nat") auto

declare bit_length.simps [simp del]

definition fl64 :: "int \<Rightarrow> int option" where
  "fl64 v =
     (if \<bar>v\<bar> \<le> 2 ^ 53 then Some v
      else (let s = bit_length \<bar>v\<bar> - 53;
                q = \<bar>v\<bar> div 2 ^ s;
                r = \<bar>v\<bar> mod 2 ^ s;
                q1 = (if 2 ^ s < 2 * r \<or> (2 * r = 2 ^ s \<and> odd q) then q + 1 else q)
            in if 2 ^ 1024 \<le> q1 * 2 ^ s then None else Some (sgn v * (q1 * 2 ^ s))))"

text \<open>
  One entry of \<^verbatim>\<open>np.dot\<close> on binary64: the products are added one after the
  other, each product and each sum rounded. Where every product and sum is exact the
  order does not matter; where one is not, this is the order of numpy's own loop. An
  infinity or a NaN, once reached, stays: \<open>None\<close>.
\<close>

fun dot64 :: "int \<Rightarrow> int list \<Rightarrow> int list \<Rightarrow> int option" where
  "dot64 acc (a # r) (b # v) =
     (case fl64 (a * b) of
        None \<Rightarrow> None
      | Some p \<Rightarrow> (case fl64 (acc + p) of None \<Rightarrow> None | Some acc1 \<Rightarrow> dot64 acc1 r v))"
| "dot64 acc r v = Some acc"

definition np_dot64 :: "int list list \<Rightarrow> int list list \<Rightarrow> int option list list" where
  "np_dot64 A B = map (\<lambda>r. map (\<lambda>j. dot64 0 r (map (\<lambda>s. s ! j) B)) [0..<length B]) A"

text \<open>\<^verbatim>\<open>P - E\<close> on binary64, entry by entry.\<close>

definition sub64 :: "int option list list \<Rightarrow> int list list \<Rightarrow> int option list list" where
  "sub64 P E = map2 (map2 (\<lambda>p e. case p of None \<Rightarrow> None | Some x \<Rightarrow> fl64 (x - e))) P E"

text \<open>
  \<^verbatim>\<open>la.norm(D) < 1e-13\<close> on binary64: false when an entry is an infinity or a NaN;
  on integers the norm is below the bound only when every entry is zero, which is
  what \<open>norm_below\<close> tests.
\<close>

definition norm_below64 :: "int option list list \<Rightarrow> bool" where
  "norm_below64 D = (list_all (list_all (\<lambda>x. x \<noteq> None)) D \<and> norm_below (map (map the) D))"

text \<open>
  Indexing with an integer: numpy counts a negative index from the end and raises
  IndexError outside \<open>[-n, n)\<close>.
\<close>

definition py_index :: "nat \<Rightarrow> int \<Rightarrow> nat option" where
  "py_index n i =
     (if 0 \<le> i \<and> i < int n then Some (nat i)
      else if - int n \<le> i \<and> i < 0 then Some (nat (int n + i))
      else None)"

text \<open>\<^verbatim>\<open>xs[idx]\<close> for a one-dimensional integer array \<open>idx\<close>: a gather along the first axis.\<close>

definition take_idx :: "'a list \<Rightarrow> int list \<Rightarrow> error + 'a list" where
  "take_idx xs idx =
     (if list_all (\<lambda>i. py_index (length xs) i \<noteq> None) idx
      then Inr (map (\<lambda>i. xs ! the (py_index (length xs) i)) idx)
      else Inl IndexError)"

text \<open>\<^verbatim>\<open>xs[table]\<close> for a two-dimensional table of node numbers.\<close>

definition take_table :: "'a list \<Rightarrow> nat list list \<Rightarrow> error + 'a list list" where
  "take_table xs table =
     (if list_all (list_all (\<lambda>i. i < length xs)) table
      then Inr (map (map (\<lambda>i. xs ! i)) table)
      else Inl IndexError)"

text \<open>\<^verbatim>\<open>order.reshape((r, c))\<close> of a one-dimensional array.\<close>

definition reshape2 :: "'a list \<Rightarrow> nat \<Rightarrow> nat \<Rightarrow> error + 'a list list" where
  "reshape2 xs r c =
     (if r * c \<noteq> length xs then Inl (ValueError reshape_msg)
      else Inr (map (\<lambda>e. take c (drop (e * c) xs)) [0..<r]))"

text \<open>\<^verbatim>\<open>np.max\<close> of a table: numpy refuses an array with no entry.\<close>

definition np_max :: "nat list list \<Rightarrow> error + nat" where
  "np_max table =
     (if concat table = [] then Inl (ValueError zero_size_msg)
      else Inr (Max (set (concat table))))"

text \<open>Storing into an array of \<^verbatim>\<open>dtype=np.int32\<close> keeps the low 32 bits, signed.\<close>

definition int32 :: "int \<Rightarrow> int" where
  "int32 v = sint (word_of_int v :: 32 word)"

subsection \<open>The function space analog\<close>

datatype mesh_analog_type = MeshAnalog | MeshAnalogNearBdy | MeshAnalogOnBdy

text \<open>
  The first eight fields are what the collaborators give: the class of
  \<^verbatim>\<open>_mesh_analog\<close>; firedrake's cell node list (the argument of
  \<^verbatim>\<open>_compute_fd_cell_nodes\<close>, or what \<^verbatim>\<open>make_cell_node_list\<close> builds);
  \<^verbatim>\<open>cell_id_to_fd_cell_id()\<close>; \<^verbatim>\<open>vertex_indices()\<close>, one row per meshmode
  element; the degree of the finat element; \<^verbatim>\<open>flip_matrix()\<close> and
  \<^verbatim>\<open>unit_nodes().shape[1]\<close> of \<^verbatim>\<open>get_finat_element_analog()\<close>; and
  \<^verbatim>\<open>orientations()\<close>. The last four are the attributes the object caches.
\<close>

record FunctionSpaceAnalog =
  mesh_analog :: mesh_analog_type
  fd_cell_node_list :: "nat list list"
  cell_id_to_fd_cell_id :: "nat list"
  vertex_indices :: "nat list list"
  degree :: nat
  flip_matrix :: "rat list list"
  nunit_nodes :: nat
  orientations :: "int list"
  cell_node_list :: "nat list list option"
  num_fdnodes :: "nat option"
  fd_to_mesh_reordering :: "int list option"
  mesh_to_fd_reordering :: "int list option"

text \<open>\<^verbatim>\<open>num_meshmode_nodes\<close>: elements times unit nodes.\<close>

definition num_meshmode_nodes :: "FunctionSpaceAnalog \<Rightarrow> nat" where
  "num_meshmode_nodes fs = length (vertex_indices fs) * nunit_nodes fs"

text \<open>\<^verbatim>\<open>self._cell_node_list[self._mesh_analog.cell_id_to_fd_cell_id()]\<close>\<close>

definition take_cells :: "'a list \<Rightarrow> nat list \<Rightarrow> error + 'a list" where
  "take_cells rows ids =
     (if list_all (\<lambda>i. i < length rows) ids then Inr (map (\<lambda>i. rows ! i) ids)
      else Inl IndexError)"

text \<open>
  \<^verbatim>\<open>_compute_fd_cell_nodes\<close> assigns \<^verbatim>\<open>_cell_node_list\<close> before it takes the
  maximum, and \<^verbatim>\<open>_num_fdnodes\<close> before it looks at the class of the mesh analog
  and at the degree. When it raises, the object keeps what was assigned so far: the
  error comes with the object as the raise leaves it. The methods that call it raise
  the same error, and the object they leave is this one.
\<close>

definition compute_fd_cell_nodes ::
  "FunctionSpaceAnalog \<Rightarrow> (error \<times> FunctionSpaceAnalog) + FunctionSpaceAnalog" where
  "compute_fd_cell_nodes fs =
     (case cell_node_list fs of
        Some t \<Rightarrow> Inr fs
      | None \<Rightarrow>
          (let fs1 = fs\<lparr>cell_node_list := Some (fd_cell_node_list fs)\<rparr>
           in case np_max (fd_cell_node_list fs) of
                Inl e \<Rightarrow> Inl (e, fs1)
              | Inr m \<Rightarrow>
                  (let fs2 = fs1\<lparr>num_fdnodes := Some (m + 1)\<rparr>
                   in case mesh_analog fs of
                        MeshAnalogNearBdy \<Rightarrow>
                          (case take_cells (fd_cell_node_list fs) (cell_id_to_fd_cell_id fs) of
                             Inl e \<Rightarrow> Inl (e, fs2)
                           | Inr t \<Rightarrow> Inr (fs2\<lparr>cell_node_list := Some t\<rparr>))
                      | MeshAnalogOnBdy \<Rightarrow>
                          (if degree fs \<noteq> 1 then Inl (ValueError on_bdy_msg, fs2)
                           else Inr (fs2\<lparr>cell_node_list := Some (vertex_indices fs)\<rparr>))
                      | MeshAnalog \<Rightarrow> Inr fs2)))"

definition num_firedrake_nodes :: "FunctionSpaceAnalog \<Rightarrow> error + (nat \<times> FunctionSpaceAnalog)" where
  "num_firedrake_nodes fs =
     (case compute_fd_cell_nodes fs of
        Inl (e, fs1) \<Rightarrow> Inl e
      | Inr fs1 \<Rightarrow>
          (case num_fdnodes fs1 of None \<Rightarrow> Inl TypeError | Some n \<Rightarrow> Inr (n, fs1)))"

definition firedrake_cell_node_list ::
  "FunctionSpaceAnalog \<Rightarrow> error + (nat list list \<times> FunctionSpaceAnalog)" where
  "firedrake_cell_node_list fs =
     (case compute_fd_cell_nodes fs of
        Inl (e, fs1) \<Rightarrow> Inl e
      | Inr fs1 \<Rightarrow>
          (case cell_node_list fs1 of None \<Rightarrow> Inl TypeError | Some t \<Rightarrow> Inr (t, fs1)))"

subsection \<open>The reordering array\<close>

text \<open>
  The flip matrix, rounded, transposed for meshmode to firedrake, and checked:
  \<^verbatim>\<open>np.dot\<close> refuses a matrix that is not square, and the assertion refuses one
  whose square is not the identity.
\<close>

definition get_flip_mat :: "FunctionSpaceAnalog \<Rightarrow> bool \<Rightarrow> error + int list list" where
  "get_flip_mat fs firedrake_to_meshmode =
     (let rounded = map (map rint) (flip_matrix fs)
      in if \<not> is_square rounded then Inl (ValueError not_aligned_msg)
         else (let flip_mat = (if firedrake_to_meshmode then rounded else np_T rounded)
               in if norm_below64 (sub64 (np_dot64 flip_mat flip_mat) (np_eye (length flip_mat)))
                  then Inr flip_mat
                  else Inl AssertionError))"

text \<open>
  The flip step, \<^verbatim>\<open>new_order[orient < 0] = np.einsum("ij,ej->ei", flip_mat,
  new_order[orient < 0])\<close>: the mask must be as long as the array has rows, and the
  rows as long as the flip matrix is wide.
\<close>

definition flip_nodes :: "int list list \<Rightarrow> int list \<Rightarrow> int list list \<Rightarrow> error + int list list" where
  "flip_nodes flip_mat orient new_order =
     (if length orient \<noteq> length new_order then Inl IndexError
      else if \<not> list_all (\<lambda>row. length row = length flip_mat) new_order
      then Inl (ValueError broadcast_msg)
      else Inr (map2 (\<lambda>ori row. if ori < 0 then mat_vec flip_mat row else row) orient new_order))"

text \<open>
  The loops that resize the order when meshmode has duplicate nodes:
  \<^verbatim>\<open>newnew_order[fd_index] = new_order[pyt_ndx]; pyt_ndx += 1\<close>, for the nodes of one
  cell and for the cells in turn.
\<close>

fun assign_cell :: "int list \<Rightarrow> nat list \<Rightarrow> nat \<times> int list \<Rightarrow> error + (nat \<times> int list)" where
  "assign_cell new_order [] (pyt_ndx, newnew_order) = Inr (pyt_ndx, newnew_order)"
| "assign_cell new_order (fd_index # nodes) (pyt_ndx, newnew_order) =
     (if pyt_ndx < length new_order \<and> fd_index < length newnew_order
      then assign_cell new_order nodes
             (Suc pyt_ndx, newnew_order[fd_index := int32 (new_order ! pyt_ndx)])
      else Inl IndexError)"

fun assign_cells :: "int list \<Rightarrow> nat list list \<Rightarrow> nat \<times> int list \<Rightarrow> error + (nat \<times> int list)" where
  "assign_cells new_order [] st = Inr st"
| "assign_cells new_order (nodes # cells) st =
     (case assign_cell new_order nodes st of
        Inl e \<Rightarrow> Inl e
      | Inr st1 \<Rightarrow> assign_cells new_order cells st1)"

definition resize_order ::
  "FunctionSpaceAnalog \<Rightarrow> int list \<Rightarrow> error + (int list \<times> FunctionSpaceAnalog)" where
  "resize_order fs new_order =
     (case num_firedrake_nodes fs of
        Inl e \<Rightarrow> Inl e
      | Inr (n, fs1) \<Rightarrow>
          if n = num_meshmode_nodes fs1 then Inr (new_order, fs1)
          else (case num_firedrake_nodes fs1 of
                  Inl e \<Rightarrow> Inl e
                | Inr (n1, fs2) \<Rightarrow>
                    (case firedrake_cell_node_list fs2 of
                       Inl e \<Rightarrow> Inl e
                     | Inr (table, fs3) \<Rightarrow>
                         (case assign_cells new_order table (0, replicate n1 0) of
                            Inl e \<Rightarrow> Inl e
                          | Inr (pyt_ndx, newnew_order) \<Rightarrow> Inr (newnew_order, fs3)))))"

text \<open>
  \<^verbatim>\<open>del self._cell_node_list\<close>, once the firedrake to meshmode order is known and the
  list is not expected to be used again.
\<close>

definition free_cell_node_list :: "FunctionSpaceAnalog \<Rightarrow> bool \<Rightarrow> error + FunctionSpaceAnalog" where
  "free_cell_node_list fs firedrake_to_meshmode =
     (if fd_to_mesh_reordering fs = None then Inr fs
      else (case num_firedrake_nodes fs of
              Inl e \<Rightarrow> Inl e
            | Inr (n, fs1) \<Rightarrow>
                if n = num_meshmode_nodes fs1 \<or> \<not> firedrake_to_meshmode
                then Inr (fs1\<lparr>cell_node_list := None\<rparr>)
                else Inr fs1))"

text \<open>
  The order from firedrake to meshmode, before it is cached. \<^verbatim>\<open>order\<close> is
  \<^verbatim>\<open>np.arange(...)\<close>, so it has one axis and the branch for
  \<^verbatim>\<open>len(order.shape) > 1\<close> is never taken.
\<close>

definition fd_to_mesh_order :: "FunctionSpaceAnalog \<Rightarrow> error + (int list \<times> FunctionSpaceAnalog)" where
  "fd_to_mesh_order fs =
     (case num_firedrake_nodes fs of
        Inl e \<Rightarrow> Inl e
      | Inr (n, fs1) \<Rightarrow>
          (case get_flip_mat fs1 True of
             Inl e \<Rightarrow> Inl e
           | Inr flip_mat \<Rightarrow>
               (case firedrake_cell_node_list fs1 of
                  Inl e \<Rightarrow> Inl e
                | Inr (table, fs2) \<Rightarrow>
                    (case take_table (arange n) table of
                       Inl e \<Rightarrow> Inl e
                     | Inr new_order \<Rightarrow>
                         (case flip_nodes flip_mat (orientations fs2) new_order of
                            Inl e \<Rightarrow> Inl e
                          | Inr flipped \<Rightarrow>
                              (case free_cell_node_list fs2 True of
                                 Inl e \<Rightarrow> Inl e
                               | Inr fs3 \<Rightarrow> Inr (concat flipped, fs3)))))))"

text \<open>
  The order from meshmode to firedrake before it is resized: the identity order in
  rows of \<^verbatim>\<open>nunit_nodes\<close>, flipped with the transposed matrix, and flattened.
\<close>

definition mesh_order :: "FunctionSpaceAnalog \<Rightarrow> error + int list" where
  "mesh_order fs =
     (case get_flip_mat fs False of
        Inl e \<Rightarrow> Inl e
      | Inr flip_mat \<Rightarrow>
          if nunit_nodes fs = 0 then Inl ZeroDivisionError
          else (case reshape2 (arange (num_meshmode_nodes fs))
                       (num_meshmode_nodes fs div nunit_nodes fs) (nunit_nodes fs) of
                  Inl e \<Rightarrow> Inl e
                | Inr new_order \<Rightarrow>
                    (case flip_nodes flip_mat (orientations fs) new_order of
                       Inl e \<Rightarrow> Inl e
                     | Inr flipped \<Rightarrow> Inr (concat flipped))))"

definition mesh_to_fd_order :: "FunctionSpaceAnalog \<Rightarrow> error + (int list \<times> FunctionSpaceAnalog)" where
  "mesh_to_fd_order fs =
     (case mesh_order fs of
        Inl e \<Rightarrow> Inl e
      | Inr new_order \<Rightarrow>
          (case resize_order fs new_order of
             Inl e \<Rightarrow> Inl e
           | Inr (resized, fs1) \<Rightarrow>
               (case free_cell_node_list fs1 False of
                  Inl e \<Rightarrow> Inl e
                | Inr fs2 \<Rightarrow> Inr (resized, fs2))))"

definition reordering_array ::
  "FunctionSpaceAnalog \<Rightarrow> bool \<Rightarrow> error + (int list \<times> FunctionSpaceAnalog)" where
  "reordering_array fs firedrake_to_meshmode =
     (if firedrake_to_meshmode
      then (case fd_to_mesh_reordering fs of
              Some arr \<Rightarrow> Inr (arr, fs)
            | None \<Rightarrow>
                (case fd_to_mesh_order fs of
                   Inl e \<Rightarrow> Inl e
                 | Inr (new_order, fs1) \<Rightarrow>
                     Inr (new_order, fs1\<lparr>fd_to_mesh_reordering := Some new_order\<rparr>)))
      else (case mesh_to_fd_reordering fs of
              Some arr \<Rightarrow> Inr (arr, fs)
            | None \<Rightarrow>
                (case mesh_to_fd_order fs of
                   Inl e \<Rightarrow> Inl e
                 | Inr (new_order, fs1) \<Rightarrow>
                     Inr (new_order, fs1\<lparr>mesh_to_fd_reordering := Some new_order\<rparr>))))"

subsection \<open>Reordering node values\<close>

text \<open>
  An array of node values has one axis (a value per node) or two (\<open>vdim\<close> values per
  node, a row per node). \<open>Vec vdim rows\<close> keeps the length of the second axis, which
  the rows of an array with no node cannot tell.
\<close>

datatype 'a ndarray = Scal "'a list" | Vec nat "'a list list"

text \<open>\<^verbatim>\<open>a.T.copy()\<close> of an array with \<open>vdim\<close> columns: \<open>vdim\<close> rows, one per column.\<close>

definition np_T_copy :: "nat \<Rightarrow> 'a list list \<Rightarrow> 'a list list" where
  "np_T_copy vdim rows = map (\<lambda>d. map (\<lambda>row. row ! d) rows) [0..<vdim]"

definition reorder_nodes ::
  "FunctionSpaceAnalog \<Rightarrow> 'a ndarray \<Rightarrow> bool \<Rightarrow> error + ('a ndarray \<times> FunctionSpaceAnalog)" where
  "reorder_nodes fs nodes firedrake_to_meshmode =
     (case reordering_array fs firedrake_to_meshmode of
        Inl e \<Rightarrow> Inl e
      | Inr (arr, fs1) \<Rightarrow>
          (case nodes of
             Scal xs \<Rightarrow>
               (case take_idx xs arr of
                  Inl e \<Rightarrow> Inl e
                | Inr reordered_nodes \<Rightarrow> Inr (Scal reordered_nodes, fs1))
           | Vec vdim rows \<Rightarrow>
               (case take_idx rows arr of
                  Inl e \<Rightarrow> Inl e
                | Inr reordered_nodes \<Rightarrow>
                    Inr (Vec (length reordered_nodes) (np_T_copy vdim reordered_nodes), fs1))))"

subsection \<open>Cell-by-cell layout and permutation matrices\<close>

text \<open>
  The cell node list of a space that numbers its nodes cell by cell, as a
  discontinuous space does: slot \<open>i\<close> of cell \<open>e\<close> holds node \<open>e * c + i\<close>.
\<close>

definition identity_table :: "nat \<Rightarrow> nat \<Rightarrow> nat list list" where
  "identity_table k c = map (\<lambda>e. [e * c..<e * c + c]) [0..<k]"

text \<open>
  The square of a matrix is exact in binary64 when, for every entry of the square,
  the absolute values of the products that are added stay below \<open>2^53\<close> in sum:
  then no product and no sum, in any order, is rounded.
\<close>

definition abs_dot :: "int list \<Rightarrow> int list \<Rightarrow> int" where
  "abs_dot r v = sum_list (map2 (\<lambda>a b. \<bar>a * b\<bar>) r v)"

definition exact_square :: "int list list \<Rightarrow> bool" where
  "exact_square M =
     list_all (\<lambda>r. list_all (\<lambda>j. abs_dot r (map (\<lambda>s. s ! j) M) < 2 ^ 53) [0..<length M]) M"

text \<open>A permutation matrix: every row is as long as the matrix and holds a single 1 among zeros.\<close>

definition is_perm_row :: "int list \<Rightarrow> bool" where
  "is_perm_row r = (list_all (\<lambda>v. v = 0 \<or> v = 1) r \<and> sum_list r = 1)"

definition is_perm_matrix :: "int list list \<Rightarrow> bool" where
  "is_perm_matrix M = list_all (\<lambda>r. length r = length M \<and> is_perm_row r) M"

subsection \<open>Example spaces\<close>

text \<open>
  Two triangles that share the edge between nodes 1 and 2, the second one with reversed
  orientation, with a continuous space of degree 1 on them: four firedrake nodes, six
  meshmode nodes. The flip matrix exchanges the first two unit nodes.
\<close>

definition two_triangles :: FunctionSpaceAnalog where
  "two_triangles =
     \<lparr>mesh_analog = MeshAnalog, fd_cell_node_list = [[0, 1, 2], [1, 2, 3]],
      cell_id_to_fd_cell_id = [], vertex_indices = [[0, 1, 2], [1, 2, 3]], degree = 1,
      flip_matrix = [[0, 1, 0], [1, 0, 0], [0, 0, 1]], nunit_nodes = 3,
      orientations = [1, - 1], cell_node_list = None, num_fdnodes = None,
      fd_to_mesh_reordering = None, mesh_to_fd_reordering = None\<rparr>"

text \<open>The same element on a mesh with no cell.\<close>

definition no_cells :: FunctionSpaceAnalog where
  "no_cells = two_triangles\<lparr>fd_cell_node_list := [], vertex_indices := [], orientations := []\<rparr>"

text \<open>
  A continuous space of degree 2 on the two triangles (nine nodes, six per cell),
  restricted to the four boundary facets; a facet of degree 2 has three unit nodes.
\<close>

definition boundary_degree_two :: FunctionSpaceAnalog where
  "boundary_degree_two = two_triangles\<lparr>mesh_analog := MeshAnalogOnBdy, degree := 2,
     fd_cell_node_list := [[0, 1, 2, 3, 4, 5], [1, 2, 6, 3, 7, 8]],
     vertex_indices := [[0, 1], [0, 2], [1, 3], [2, 3]], orientations := [1, 1, 1, 1]\<rparr>"


text \<open>
  One interval with a flip matrix of integers near \<open>2^27\<close>: as a matrix of integers
  it is its own inverse, but its square is not exact in binary64.
\<close>

definition large_matrix :: FunctionSpaceAnalog where
  "large_matrix = two_triangles\<lparr>fd_cell_node_list := [[0, 1]], vertex_indices := [[0, 1]],
     flip_matrix := [[134217729, 134217728], [- 134217730, - 134217729]], nunit_nodes := 2,
     orientations := [1]\<rparr>"

text \<open>
  One interval whose two nodes firedrake numbers against the order of the slots, and two
  intervals of a discontinuous space numbered cell by cell, the second one flipped.
\<close>

definition swapped_interval :: FunctionSpaceAnalog where
  "swapped_interval = two_triangles\<lparr>fd_cell_node_list := [[1, 0]], vertex_indices := [[0, 1]],
     flip_matrix := [[0, 1], [1, 0]], nunit_nodes := 2, orientations := [1]\<rparr>"

definition two_intervals :: FunctionSpaceAnalog where
  "two_intervals = two_triangles\<lparr>fd_cell_node_list := [[0, 1], [2, 3]],
     vertex_indices := [[0, 1], [1, 2]], flip_matrix := [[0, 1], [1, 0]], nunit_nodes := 2,
     orientations := [1, - 1]\<rparr>"

subsection \<open>The operator connection\<close>

text \<open>
  \<^verbatim>\<open>OpConnection.__init__\<close>, the part that handles \<^verbatim>\<open>targets\<close>. The mesh gives
  \<^verbatim>\<open>exterior_facets.unique_markers\<close> and the function space gives
  \<^verbatim>\<open>boundary_nodes(marker, 'geometric')\<close>, which is firedrake's and may raise. A
  Python set is a list without repetition here; nothing below depends on the order
  of its elements. The result is what \<^verbatim>\<open>warn\<close> was called with (the ids that
  are not exterior facet ids), and either the error raised or
  \<^verbatim>\<open>self.target_indices\<close>.
\<close>

datatype targets_arg = TargetInt int | TargetIds "int list"

abbreviation no_boundary_ids_msg :: string where
  "no_boundary_ids_msg \<equiv> ''No boundary ids are exterior facet ids''"

text \<open>\<^verbatim>\<open>targets\<close> as a list: an \<^verbatim>\<open>int\<close> stands for the list that holds it.\<close>

definition requested_ids :: "targets_arg \<Rightarrow> int list" where
  "requested_ids t = (case t of TargetInt i \<Rightarrow> [i] | TargetIds ids \<Rightarrow> ids)"

text \<open>
  The loop over \<^verbatim>\<open>target_markers\<close>: every marker is passed to
  \<^verbatim>\<open>boundary_nodes\<close> and its nodes are added to the set; an error of
  \<^verbatim>\<open>boundary_nodes\<close> ends the loop.
\<close>

fun collect_boundary_nodes ::
  "(int \<Rightarrow> error + nat list) \<Rightarrow> int list \<Rightarrow> nat list \<Rightarrow> error + nat list" where
  "collect_boundary_nodes boundary_nodes [] indices = Inr indices"
| "collect_boundary_nodes boundary_nodes (marker # markers) indices =
     (case boundary_nodes marker of
        Inl e \<Rightarrow> Inl e
      | Inr nodes \<Rightarrow>
          collect_boundary_nodes boundary_nodes markers (remdups (indices @ nodes)))"

definition handle_targets ::
  "int list \<Rightarrow> (int \<Rightarrow> error + nat list) \<Rightarrow> targets_arg option
    \<Rightarrow> int list list \<times> (error + nat list option)" where
  "handle_targets unique_markers boundary_nodes targets =
     (case targets of
        None \<Rightarrow> ([], Inr None)
      | Some t \<Rightarrow>
          (let target_markers = remdups (requested_ids t);
               warned =
                 (if list_all (\<lambda>m. m \<in> set unique_markers) target_markers then []
                  else [filter (\<lambda>m. m \<notin> set unique_markers) target_markers])
           in if filter (\<lambda>m. m \<in> set unique_markers) target_markers = []
              then (warned, Inl (ValueError no_boundary_ids_msg))
              else (warned,
                    case collect_boundary_nodes boundary_nodes target_markers [] of
                      Inl e \<Rightarrow> Inl e
                    | Inr indices \<Rightarrow> Inr (Some indices))))"

text \<open>
  \<^verbatim>\<open>data[idx] = values\<close> for an index array: the values are as many as the indices,
  or a single one that is broadcast; the assignments are made in the order of the
  indices.
\<close>

abbreviation shape_mismatch_msg :: string where
  "shape_mismatch_msg \<equiv> ''shape mismatch: value array could not be broadcast to indexing result''"

definition scatter :: "'a list \<Rightarrow> nat list \<Rightarrow> 'a list \<Rightarrow> error + 'a list" where
  "scatter data idx vals =
     (if length vals \<noteq> length idx \<and> length vals \<noteq> 1 then Inl (ValueError shape_mismatch_msg)
      else if \<not> list_all (\<lambda>i. i < length data) idx then Inl IndexError
      else if length vals = length idx
      then Inr (fold (\<lambda>(i, v) d. d[i := v]) (zip idx vals) data)
      else Inr (fold (\<lambda>i d. d[i := hd vals]) idx data))"

text \<open>\<^verbatim>\<open>data[:] = values[:]\<close>\<close>

definition assign_all :: "'a list \<Rightarrow> 'a list \<Rightarrow> error + 'a list" where
  "assign_all data vals =
     (if length vals = length data then Inr vals
      else if length vals = 1 then Inr (replicate (length data) (hd vals))
      else Inl (ValueError shape_mismatch_msg))"

text \<open>
  \<^verbatim>\<open>OpConnection.__call__\<close>. The object holds \<^verbatim>\<open>target_indices\<close>, the number of
  degrees of freedom of \<^verbatim>\<open>_out_fspace\<close>, the bound operator, and the two
  conversions of the function converter (to meshmode for an argument, back to
  firedrake for a result). A keyword argument is a firedrake function, given by its
  data, or anything else.
\<close>

datatype ('a, 'b) kwarg = FunctionArg "'a list" | OtherArg 'b

record ('a, 'b) OpConnection =
  target_indices :: "nat list option"
  out_fspace_dim :: nat
  bound_op :: "(string \<times> ('a, 'b) kwarg) list \<Rightarrow> error + 'a list"
  convert_to_meshmode :: "'a list \<Rightarrow> error + 'a list"
  convert_to_firedrake :: "'a list \<Rightarrow> error + 'a list"

fun convert_kwargs ::
  "('a list \<Rightarrow> error + 'a list) \<Rightarrow> (string \<times> ('a, 'b) kwarg) list
    \<Rightarrow> error + (string \<times> ('a, 'b) kwarg) list" where
  "convert_kwargs conv [] = Inr []"
| "convert_kwargs conv ((key, FunctionArg f) # kwargs) =
     (case conv f of
        Inl e \<Rightarrow> Inl e
      | Inr pyt_fntn \<Rightarrow>
          (case convert_kwargs conv kwargs of
             Inl e \<Rightarrow> Inl e
           | Inr new_kwargs \<Rightarrow> Inr ((key, FunctionArg pyt_fntn) # new_kwargs)))"
| "convert_kwargs conv ((key, OtherArg v) # kwargs) =
     (case convert_kwargs conv kwargs of
        Inl e \<Rightarrow> Inl e
      | Inr new_kwargs \<Rightarrow> Inr ((key, OtherArg v) # new_kwargs))"

definition call ::
  "('a::zero, 'b) OpConnection \<Rightarrow> 'a list option \<Rightarrow> (string \<times> ('a, 'b) kwarg) list
    \<Rightarrow> error + 'a list" where
  "call oc result_function kwargs =
     (case convert_kwargs (convert_to_meshmode oc) kwargs of
        Inl e \<Rightarrow> Inl e
      | Inr new_kwargs \<Rightarrow>
          (case bound_op oc new_kwargs of
             Inl e \<Rightarrow> Inl e
           | Inr result \<Rightarrow>
               (let data = (case result_function of
                              None \<Rightarrow> replicate (out_fspace_dim oc) 0
                            | Some d \<Rightarrow> d)
                in case target_indices oc of
                     Some idx \<Rightarrow> scatter data idx result
                   | None \<Rightarrow>
                       (case convert_to_firedrake oc result of
                          Inl e \<Rightarrow> Inl e
                        | Inr converted \<Rightarrow> assign_all data converted))))"

text \<open>
  A connection whose target is the single node 1 of a space with three degrees of
  freedom, and whose operator returns the value 5 there.
\<close>

definition one_target :: "(int, unit) OpConnection" where
  "one_target =
     \<lparr>target_indices = Some [1], out_fspace_dim = 3, bound_op = (\<lambda>kwargs. Inr [5]),
      convert_to_meshmode = Inr, convert_to_firedrake = Inr\<rparr>"

text \<open>
  The two triangles again, 0 1 2 and 1 2 3. The exterior edges 0 1, 0 2 and the pair
  1 3, 2 3 carry the markers 1, 2 and 3; the interior edge 1 2 carries the marker 5.
  \<open>marked_nodes\<close> gives the nodes of the facets with a marker. The first
  \<^verbatim>\<open>boundary_nodes\<close> answers for every marker, the second raises for a marker
  that no exterior facet carries.
\<close>

definition marked_nodes :: "int \<Rightarrow> nat list" where
  "marked_nodes m =
     (if m = 1 then [0, 1] else if m = 2 then [0, 2] else if m = 3 then [1, 2, 3]
      else if m = 5 then [1, 2] else [])"

abbreviation no_such_marker_msg :: string where
  "no_such_marker_msg \<equiv> ''no exterior facet with this marker''"

definition lenient_boundary_nodes :: "int \<Rightarrow> error + nat list" where
  "lenient_boundary_nodes m = Inr (marked_nodes m)"

definition strict_boundary_nodes :: "int \<Rightarrow> error + nat list" where
  "strict_boundary_nodes m =
     (if m \<in> {1, 2, 3} then Inr (marked_nodes m) else Inl (ValueError no_such_marker_msg))"

subsection \<open>Arrays in a store\<close>

text \<open>
  The arrays a caller holds, each at its address in a list. \<^verbatim>\<open>reorder_nodes\<close> reads
  the array at the address it is given. Indexing with an integer array makes a new
  array, \<^verbatim>\<open>.T\<close> is a view of it and \<^verbatim>\<open>.copy()\<close> makes another new array: each
  new array is put at the next free address. The reordering array itself belongs to
  the object and is computed from arrays the caller never sees.
\<close>

definition reorder_nodes_at ::
  "FunctionSpaceAnalog \<Rightarrow> 'a ndarray list \<Rightarrow> nat \<Rightarrow> bool
    \<Rightarrow> error + (nat \<times> 'a ndarray list \<times> FunctionSpaceAnalog)" where
  "reorder_nodes_at fs store nodes firedrake_to_meshmode =
     (case reordering_array fs firedrake_to_meshmode of
        Inl e \<Rightarrow> Inl e
      | Inr (arr, fs1) \<Rightarrow>
          (case store ! nodes of
             Scal xs \<Rightarrow>
               (case take_idx xs arr of
                  Inl e \<Rightarrow> Inl e
                | Inr reordered_nodes \<Rightarrow>
                    Inr (length store, store @ [Scal reordered_nodes], fs1))
           | Vec vdim rows \<Rightarrow>
               (case take_idx rows arr of
                  Inl e \<Rightarrow> Inl e
                | Inr reordered_nodes \<Rightarrow>
                    (let store1 = store @ [Vec vdim reordered_nodes]
                     in Inr (length store1,
                             store1 @ [Vec (length reordered_nodes)
                                         (np_T_copy vdim reordered_nodes)],
                             fs1)))))"

section \<open>Properties\<close>

subsection \<open>The flip step\<close>

text \<open>
  Claim C4. The flip step leaves the block of local nodes of every cell with positive
  orientation as it was: a block that the step changes belongs to a cell with negative
  orientation, and the block of such a cell is the flip matrix applied to it.
\<close>

theorem flip_step_keeps_positive_cells:
  assumes "flip_nodes flip_mat orient new_order = Inr flipped"
    and "e < length new_order"
  shows "length flipped = length new_order
    \<and> (0 < orient ! e \<longrightarrow> flipped ! e = new_order ! e)
    \<and> (flipped ! e \<noteq> new_order ! e \<longrightarrow> orient ! e < 0)
    \<and> (orient ! e < 0 \<longrightarrow> flipped ! e = mat_vec flip_mat (new_order ! e))"
  using assms by (auto simp: flip_nodes_def split: if_splits)

theorem flip_step_keeps_positive_cells_witness:
  "\<exists>flipped.
     flip_nodes [[0, 1, 0], [1, 0, 0], [0, 0, 1]] [1, - 1] [[0, 1, 2], [1, 2, 3]] = Inr flipped
     \<and> length flipped = 2 \<and> flipped ! 0 = [0, 1, 2]"
proof -
  have run: "flip_nodes [[0, 1, 0], [1, 0, 0], [0, 0, 1]] [1, - 1] [[0, 1, 2], [1, 2, 3]]
     = Inr [[0, 1, 2], [2, 1, 3]]"
    by (simp add: flip_nodes_def mat_vec_def dot_vec_def)
  from flip_step_keeps_positive_cells [OF run, of 0] show ?thesis
    using run by simp
qed

subsection \<open>The firedrake cell node list\<close>

text \<open>
  Claim C7, where the code departs from it. For a space restricted to the boundary
  (\<^verbatim>\<open>MeshAnalogOnBdy\<close>) whose element has a degree above 1, the first
  computation of the firedrake cell node list raises ValueError. But the cell node
  list of the whole mesh and the node count are stored before the degree is looked
  at, and the raise leaves them in the object: on that object the computation now
  finds a list, does nothing, and every later call returns the list of the whole
  mesh without an error.
\<close>

theorem on_bdy_error_leaves_whole_mesh_list:
  assumes "cell_node_list fs = None" and "mesh_analog fs = MeshAnalogOnBdy"
    and "1 < degree fs" and "concat (fd_cell_node_list fs) \<noteq> []"
  shows "\<exists>fs1. compute_fd_cell_nodes fs = Inl (ValueError on_bdy_msg, fs1)
    \<and> firedrake_cell_node_list fs = Inl (ValueError on_bdy_msg)
    \<and> num_firedrake_nodes fs = Inl (ValueError on_bdy_msg)
    \<and> compute_fd_cell_nodes fs1 = Inr fs1
    \<and> firedrake_cell_node_list fs1 = Inr (fd_cell_node_list fs, fs1)
    \<and> num_firedrake_nodes fs1 = Inr (Max (set (concat (fd_cell_node_list fs))) + 1, fs1)"
  using assms
  by (simp add: compute_fd_cell_nodes_def firedrake_cell_node_list_def
      num_firedrake_nodes_def np_max_def Let_def)

theorem on_bdy_error_leaves_whole_mesh_list_witness:
  "compute_fd_cell_nodes boundary_degree_two
     = Inl (ValueError on_bdy_msg,
            boundary_degree_two\<lparr>cell_node_list := Some [[0, 1, 2, 3, 4, 5], [1, 2, 6, 3, 7, 8]],
              num_fdnodes := Some 9\<rparr>)
   \<and> firedrake_cell_node_list
         (boundary_degree_two\<lparr>cell_node_list := Some [[0, 1, 2, 3, 4, 5], [1, 2, 6, 3, 7, 8]],
            num_fdnodes := Some 9\<rparr>)
     = Inr ([[0, 1, 2, 3, 4, 5], [1, 2, 6, 3, 7, 8]],
            boundary_degree_two\<lparr>cell_node_list := Some [[0, 1, 2, 3, 4, 5], [1, 2, 6, 3, 7, 8]],
              num_fdnodes := Some 9\<rparr>)"
proof -
  let ?fs1 = "boundary_degree_two\<lparr>cell_node_list := Some [[0, 1, 2, 3, 4, 5], [1, 2, 6, 3, 7, 8]],
              num_fdnodes := Some 9\<rparr>"
  have run: "compute_fd_cell_nodes boundary_degree_two = Inl (ValueError on_bdy_msg, ?fs1)"
    by code_simp
  have a: "cell_node_list boundary_degree_two = None"
    "mesh_analog boundary_degree_two = MeshAnalogOnBdy"
    "1 < degree boundary_degree_two"
    "concat (fd_cell_node_list boundary_degree_two) \<noteq> []"
    "fd_cell_node_list boundary_degree_two = [[0, 1, 2, 3, 4, 5], [1, 2, 6, 3, 7, 8]]"
    by (simp_all add: boundary_degree_two_def two_triangles_def)
  from on_bdy_error_leaves_whole_mesh_list [OF a(1-4)] obtain fs1
    where "compute_fd_cell_nodes boundary_degree_two = Inl (ValueError on_bdy_msg, fs1)"
      and "firedrake_cell_node_list fs1 = Inr (fd_cell_node_list boundary_degree_two, fs1)"
    by blast
  with run a(5) show ?thesis by simp
qed

subsection \<open>A mesh with no cell\<close>

lemma compute_fd_cell_nodes_empty:
  assumes "concat (fd_cell_node_list fs) = []" and "cell_node_list fs = None"
  shows "compute_fd_cell_nodes fs
    = Inl (ValueError zero_size_msg, fs\<lparr>cell_node_list := Some (fd_cell_node_list fs)\<rparr>)"
  using assms by (simp add: compute_fd_cell_nodes_def np_max_def)

text \<open>
  Claim C9, as the code has it. On a mesh with no cell the number of firedrake nodes
  is the maximum of an empty cell node list, which numpy refuses: the order from
  firedrake to meshmode raises ValueError at once, and the order from meshmode to
  firedrake raises it when the count is first needed, unless an earlier step has
  already failed. No order is returned in either direction.
\<close>

theorem no_cells_no_order:
  assumes "concat (fd_cell_node_list fs) = []" and "cell_node_list fs = None"
    and "fd_to_mesh_reordering fs = None" and "mesh_to_fd_reordering fs = None"
  shows "reordering_array fs True = Inl (ValueError zero_size_msg)
    \<and> reordering_array fs False =
        (case mesh_order fs of Inl e \<Rightarrow> Inl e | Inr new_order \<Rightarrow> Inl (ValueError zero_size_msg))"
  using assms compute_fd_cell_nodes_empty [OF assms(1,2)]
  by (simp add: reordering_array_def fd_to_mesh_order_def mesh_to_fd_order_def
      resize_order_def num_firedrake_nodes_def split: sum.splits)

theorem no_cells_no_order_witness:
  "reordering_array no_cells True = Inl (ValueError zero_size_msg)
   \<and> mesh_order no_cells = Inr []
   \<and> reordering_array no_cells False = Inl (ValueError zero_size_msg)"
proof -
  have m: "mesh_order no_cells = Inr []" by code_simp
  show ?thesis
    using no_cells_no_order [of no_cells] m
    by (simp add: no_cells_def two_triangles_def)
qed

text \<open>
  The claim as the specification states it, an empty order in both directions, fails
  on the mesh with no cell.
\<close>

theorem no_cells_raises:
  "reordering_array no_cells True = Inl (ValueError zero_size_msg)
   \<and> reordering_array no_cells False = Inl (ValueError zero_size_msg)"
  by code_simp

subsection \<open>The check of the flip matrix\<close>

lemma sum_squares_zero_iff:
  fixes r :: "int list"
  shows "sum_list (map (\<lambda>x. x * x) r) = 0 \<longleftrightarrow> (\<forall>x\<in>set r. x = 0)"
  by (subst sum_list_nonneg_eq_0_iff) auto

lemma frobenius_sq_zero_iff:
  "frobenius_sq D = 0 \<longleftrightarrow> (\<forall>r\<in>set D. \<forall>x\<in>set r. x = 0)"
proof -
  have "frobenius_sq D = 0
      \<longleftrightarrow> (\<forall>s\<in>set (map (\<lambda>r. sum_list (map (\<lambda>x. x * x) r)) D). s = 0)"
    unfolding frobenius_sq_def
    by (rule sum_list_nonneg_eq_0_iff) (auto intro!: sum_list_nonneg)
  then show ?thesis
    by (simp add: sum_squares_zero_iff)
qed

lemma frobenius_sq_nonneg: "0 \<le> frobenius_sq D"
  unfolding frobenius_sq_def by (auto intro!: sum_list_nonneg)

lemma norm_below_iff: "norm_below D \<longleftrightarrow> frobenius_sq D = 0"
proof
  assume "norm_below D"
  show "frobenius_sq D = 0"
  proof (rule ccontr)
    assume "frobenius_sq D \<noteq> 0"
    with frobenius_sq_nonneg [of D] have "1 \<le> frobenius_sq D" by linarith
    then have "(1::rat) \<le> rat_of_int (frobenius_sq D)" by simp
    moreover have "(1 / 10 ^ 13) ^ 2 < (1::rat)" by (simp add: power_divide)
    ultimately show False using \<open>norm_below D\<close> by (simp add: norm_below_def)
  qed
next
  assume "frobenius_sq D = 0"
  then show "norm_below D" by (simp add: norm_below_def)
qed

lemma mat_sub_zero_iff:
  fixes A B :: "int list list"
  assumes "length A = length B" and "\<forall>i<length A. length (A ! i) = length (B ! i)"
  shows "(\<forall>r\<in>set (mat_sub A B). \<forall>x\<in>set r. x = 0) \<longleftrightarrow> A = B"
proof
  assume z: "\<forall>r\<in>set (mat_sub A B). \<forall>x\<in>set r. x = 0"
  show "A = B"
  proof (rule nth_equalityI)
    show "length A = length B" by (rule assms(1))
  next
    fix i assume i: "i < length A"
    then have len: "length (A ! i) = length (B ! i)" using assms(2) by simp
    have row: "mat_sub A B ! i = map2 (-) (A ! i) (B ! i)"
      using i assms(1) by (simp add: mat_sub_def)
    have "length (mat_sub A B) = length A"
      using assms(1) by (simp add: mat_sub_def)
    with i have "mat_sub A B ! i \<in> set (mat_sub A B)"
      by (metis nth_mem)
    with z have rz: "\<forall>x\<in>set (mat_sub A B ! i). x = 0" by blast
    show "A ! i = B ! i"
    proof (rule nth_equalityI)
      show "length (A ! i) = length (B ! i)" by (rule len)
    next
      fix j assume j: "j < length (A ! i)"
      then have "map2 (-) (A ! i) (B ! i) ! j = A ! i ! j - B ! i ! j"
        using len by simp
      moreover have "j < length (mat_sub A B ! i)"
        using j len row by simp
      then have "mat_sub A B ! i ! j \<in> set (mat_sub A B ! i)"
        by (rule nth_mem)
      then have "map2 (-) (A ! i) (B ! i) ! j \<in> set (mat_sub A B ! i)"
        using row by simp
      ultimately show "A ! i ! j = B ! i ! j" using rz by auto
    qed
  qed
next
  assume "A = B"
  then show "\<forall>r\<in>set (mat_sub A B). \<forall>x\<in>set r. x = 0"
    by (auto simp: mat_sub_def set_zip)
qed

lemma length_np_dot [simp]: "length (np_dot A B) = length A"
  by (simp add: np_dot_def)

lemma length_np_dot_row [simp]: "i < length A \<Longrightarrow> length (np_dot A B ! i) = length B"
  by (simp add: np_dot_def)

lemma length_np_eye [simp]: "length (np_eye n) = n"
  by (simp add: np_eye_def)

lemma length_np_eye_row [simp]: "i < n \<Longrightarrow> length (np_eye n ! i) = n"
  by (simp add: np_eye_def)

lemma assertion_iff:
  fixes M :: "int list list"
  assumes "length M = n"
  shows "norm_below (mat_sub (np_dot M M) (np_eye n)) \<longleftrightarrow> np_dot M M = np_eye n"
  using assms by (simp add: norm_below_iff frobenius_sq_zero_iff mat_sub_zero_iff)

lemma map2_mult_commute:
  fixes a b :: "'a::comm_ring_1 list"
  shows "map2 (*) a b = map2 (*) b a"
proof (induction a arbitrary: b)
  case Nil
  then show ?case by simp
next
  case (Cons x a)
  then show ?case by (cases b) (simp_all add: mult.commute)
qed

lemma dot_vec_commute: "dot_vec a b = dot_vec b a"
  by (simp add: dot_vec_def map2_mult_commute)

lemma is_square_nth: "is_square M \<Longrightarrow> i < length M \<Longrightarrow> length (M ! i) = length M"
  by (simp add: is_square_def list_all_length)

lemma length_np_T [simp]: "length (np_T M) = length M"
  by (simp add: np_T_def)

lemma is_square_np_T: "is_square (np_T M)"
  by (simp add: is_square_def np_T_def list_all_iff)

lemma np_T_row: "i < length M \<Longrightarrow> np_T M ! i = map (\<lambda>r. r ! i) M"
  by (simp add: np_T_def)

lemma np_T_col:
  assumes "is_square M" and "j < length M"
  shows "map (\<lambda>s. s ! j) (np_T M) = M ! j"
  using assms by (auto simp: np_T_def is_square_nth intro!: nth_equalityI)

lemma np_dot_np_T:
  fixes M :: "'a::comm_ring_1 list list"
  assumes "is_square M"
  shows "np_dot (np_T M) (np_T M) = np_T (np_dot M M)"
proof (rule nth_equalityI)
  show "length (np_dot (np_T M) (np_T M)) = length (np_T (np_dot M M))" by simp
next
  fix i assume "i < length (np_dot (np_T M) (np_T M))"
  then have i: "i < length M" by simp
  show "np_dot (np_T M) (np_T M) ! i = np_T (np_dot M M) ! i"
  proof (rule nth_equalityI)
    show "length (np_dot (np_T M) (np_T M) ! i) = length (np_T (np_dot M M) ! i)"
      using i by (simp add: np_T_row)
  next
    fix j assume "j < length (np_dot (np_T M) (np_T M) ! i)"
    then have j: "j < length M" using i by simp
    have "np_dot (np_T M) (np_T M) ! i ! j = dot_vec (np_T M ! i) (map (\<lambda>s. s ! j) (np_T M))"
      using i j by (simp add: np_dot_def)
    also have "\<dots> = dot_vec (map (\<lambda>r. r ! i) M) (M ! j)"
      using i j assms by (simp add: np_T_row np_T_col)
    also have "\<dots> = dot_vec (M ! j) (map (\<lambda>r. r ! i) M)"
      by (rule dot_vec_commute)
    also have "\<dots> = np_dot M M ! j ! i"
      using i j by (simp add: np_dot_def)
    also have "\<dots> = np_T (np_dot M M) ! i ! j"
      using i j by (simp add: np_T_row)
    finally show "np_dot (np_T M) (np_T M) ! i ! j = np_T (np_dot M M) ! i ! j" .
  qed
qed

lemma np_T_np_eye: "np_T (np_eye n) = np_eye n"
  by (auto simp: np_T_def np_eye_def intro!: nth_equalityI)

lemma np_T_np_T: "is_square M \<Longrightarrow> np_T (np_T M) = M"
  by (auto simp: np_T_def is_square_nth intro!: nth_equalityI)

lemma is_square_np_dot: "is_square (np_dot M M)"
  by (simp add: is_square_def np_dot_def list_all_iff)

lemma np_dot_np_T_eye:
  fixes M :: "'a::comm_ring_1 list list"
  assumes "is_square M" and n: "length M = n"
  shows "np_dot (np_T M) (np_T M) = np_eye n \<longleftrightarrow> np_dot M M = np_eye n"
  unfolding n [symmetric]
proof
  assume "np_dot (np_T M) (np_T M) = np_eye (length M)"
  then have "np_T (np_T (np_dot M M)) = np_T (np_eye (length M))"
    using assms by (simp add: np_dot_np_T)
  then show "np_dot M M = np_eye (length M)"
    by (simp add: np_T_np_T is_square_np_dot np_T_np_eye)
next
  assume "np_dot M M = np_eye (length M)"
  then show "np_dot (np_T M) (np_T M) = np_eye (length M)"
    using assms by (simp add: np_dot_np_T np_T_np_eye)
qed

lemma fl64_exact: "\<bar>v\<bar> \<le> 2 ^ 53 \<Longrightarrow> fl64 v = Some v"
  by (simp add: fl64_def)

lemma abs_dot_nonneg: "0 \<le> abs_dot r v"
  unfolding abs_dot_def by (rule sum_list_nonneg) auto

lemma abs_dot_Cons: "abs_dot (a # r) (b # v) = \<bar>a * b\<bar> + abs_dot r v"
  by (simp add: abs_dot_def)

lemma dot_vec_Cons: "dot_vec (a # r) (b # v) = a * b + dot_vec r v"
  by (simp add: dot_vec_def)

lemma dot_vec_Nil: "dot_vec [] v = 0" "dot_vec r [] = 0"
  by (simp_all add: dot_vec_def)

lemma dot64_exact:
  "\<bar>acc\<bar> + abs_dot r v \<le> 2 ^ 53 \<Longrightarrow> dot64 acc r v = Some (acc + dot_vec r v)"
proof (induction acc r v rule: dot64.induct)
  case (1 acc a r b v)
  have nn: "0 \<le> abs_dot r v" by (rule abs_dot_nonneg)
  from "1.prems" have bound: "\<bar>acc\<bar> + \<bar>a * b\<bar> + abs_dot r v \<le> 2 ^ 53"
    by (simp add: abs_dot_Cons)
  then have p: "fl64 (a * b) = Some (a * b)"
    using nn by (intro fl64_exact) linarith
  have s: "fl64 (acc + a * b) = Some (acc + a * b)"
    using bound nn by (intro fl64_exact) linarith
  have "\<bar>acc + a * b\<bar> + abs_dot r v \<le> 2 ^ 53"
    using bound by linarith
  then have "dot64 (acc + a * b) r v = Some (acc + a * b + dot_vec r v)"
    using "1.IH" [OF p s] by simp
  then show ?case using p s by (simp add: dot_vec_Cons)
qed (simp_all add: dot_vec_Nil)

lemma dot_vec_le_abs_dot: "\<bar>dot_vec r v\<bar> \<le> abs_dot r v"
proof (induction r arbitrary: v)
  case Nil
  then show ?case by (simp add: dot_vec_def abs_dot_def)
next
  case (Cons a r)
  show ?case
  proof (cases v)
    case Nil
    then show ?thesis by (simp add: dot_vec_def abs_dot_def)
  next
    case (Cons b w)
    have "\<bar>a * b + dot_vec r w\<bar> \<le> \<bar>a * b\<bar> + \<bar>dot_vec r w\<bar>" by (rule abs_triangle_ineq)
    then show ?thesis
      using Cons.IH [of w] Cons by (simp add: dot_vec_Cons abs_dot_Cons)
  qed
qed

lemma exact_square_nth:
  "exact_square M \<Longrightarrow> i < length M \<Longrightarrow> j < length M
    \<Longrightarrow> abs_dot (M ! i) (map (\<lambda>s. s ! j) M) < 2 ^ 53"
  by (simp add: exact_square_def list_all_length)

lemma np_dot64_exact:
  assumes "exact_square M"
  shows "np_dot64 M M = map (map Some) (np_dot M M)"
proof (rule nth_equalityI)
  show "length (np_dot64 M M) = length (map (map Some) (np_dot M M))"
    by (simp add: np_dot64_def)
next
  fix i assume "i < length (np_dot64 M M)"
  then have i: "i < length M" by (simp add: np_dot64_def)
  show "np_dot64 M M ! i = map (map Some) (np_dot M M) ! i"
  proof (rule nth_equalityI)
    show "length (np_dot64 M M ! i) = length (map (map Some) (np_dot M M) ! i)"
      using i by (simp add: np_dot64_def)
  next
    fix j assume "j < length (np_dot64 M M ! i)"
    then have j: "j < length M" using i by (simp add: np_dot64_def)
    have "dot64 0 (M ! i) (map (\<lambda>s. s ! j) M) = Some (0 + dot_vec (M ! i) (map (\<lambda>s. s ! j) M))"
      using exact_square_nth [OF assms i j] by (intro dot64_exact) simp
    then show "np_dot64 M M ! i ! j = map (map Some) (np_dot M M) ! i ! j"
      using i j by (simp add: np_dot64_def np_dot_def)
  qed
qed

lemma sub64_exact:
  assumes "exact_square M" and "length M = n"
  shows "sub64 (map (map Some) (np_dot M M)) (np_eye n)
    = map (map Some) (mat_sub (np_dot M M) (np_eye n))"
proof (rule nth_equalityI)
  show "length (sub64 (map (map Some) (np_dot M M)) (np_eye n))
      = length (map (map Some) (mat_sub (np_dot M M) (np_eye n)))"
    by (simp add: sub64_def mat_sub_def)
next
  fix i assume "i < length (sub64 (map (map Some) (np_dot M M)) (np_eye n))"
  then have i: "i < n" using assms(2) by (simp add: sub64_def)
  show "sub64 (map (map Some) (np_dot M M)) (np_eye n) ! i
      = map (map Some) (mat_sub (np_dot M M) (np_eye n)) ! i"
  proof (rule nth_equalityI)
    show "length (sub64 (map (map Some) (np_dot M M)) (np_eye n) ! i)
        = length (map (map Some) (mat_sub (np_dot M M) (np_eye n)) ! i)"
      using i assms(2) by (simp add: sub64_def mat_sub_def)
  next
    fix j assume "j < length (sub64 (map (map Some) (np_dot M M)) (np_eye n) ! i)"
    then have j: "j < n" using i assms(2) by (simp add: sub64_def)
    let ?x = "dot_vec (M ! i) (map (\<lambda>s. s ! j) M)"
    have "\<bar>?x\<bar> < 2 ^ 53"
      using dot_vec_le_abs_dot [of "M ! i" "map (\<lambda>s. s ! j) M"]
        exact_square_nth [OF assms(1), of i j] i j assms(2) by simp
    then have "fl64 (?x - (if i = j then 1 else 0)) = Some (?x - (if i = j then 1 else 0))"
      by (intro fl64_exact) (auto simp: abs_if split: if_splits)
    then show "sub64 (map (map Some) (np_dot M M)) (np_eye n) ! i ! j
        = map (map Some) (mat_sub (np_dot M M) (np_eye n)) ! i ! j"
      using i j assms(2) by (simp add: sub64_def mat_sub_def np_dot_def np_eye_def)
  qed
qed

lemma norm_below64_Some: "norm_below64 (map (map Some) D) = norm_below D"
proof -
  have "map (map the) (map (map Some) D) = D"
    by (simp add: comp_def map_idI)
  then show ?thesis
    by (simp add: norm_below64_def list_all_iff)
qed

lemma assertion64_iff:
  assumes "exact_square M" and "length M = n"
  shows "norm_below64 (sub64 (np_dot64 M M) (np_eye n)) \<longleftrightarrow> np_dot M M = np_eye n"
  using assms
  by (simp add: np_dot64_exact sub64_exact norm_below64_Some assertion_iff)

lemma abs_dot_commute: "abs_dot a b = abs_dot b a"
proof -
  have "map2 (\<lambda>x y. \<bar>x * y\<bar>) a b = map2 (\<lambda>x y. \<bar>x * y\<bar>) b a"
  proof (induction a arbitrary: b)
    case Nil
    then show ?case by simp
  next
    case (Cons x a)
    then show ?case by (cases b) (simp_all add: mult.commute)
  qed
  then show ?thesis by (simp add: abs_dot_def)
qed

lemma exact_square_np_T:
  assumes "is_square M" and "exact_square M"
  shows "exact_square (np_T M)"
proof -
  have "abs_dot (np_T M ! i) (map (\<lambda>s. s ! j) (np_T M)) < 2 ^ 53"
    if i: "i < length M" and j: "j < length M" for i j
  proof -
    have "abs_dot (np_T M ! i) (map (\<lambda>s. s ! j) (np_T M)) = abs_dot (map (\<lambda>r. r ! i) M) (M ! j)"
      using i j assms(1) by (simp add: np_T_row np_T_col)
    also have "\<dots> = abs_dot (M ! j) (map (\<lambda>r. r ! i) M)" by (rule abs_dot_commute)
    also have "\<dots> < 2 ^ 53" using exact_square_nth [OF assms(2) j i] .
    finally show ?thesis .
  qed
  then show ?thesis
    by (simp add: exact_square_def list_all_length)
qed

lemma get_flip_mat_eq:
  assumes "exact_square (map (map rint) (flip_matrix fs))"
  shows "get_flip_mat fs d =
     (let rounded = map (map rint) (flip_matrix fs)
      in if \<not> is_square rounded then Inl (ValueError not_aligned_msg)
         else if np_dot rounded rounded = np_eye (length rounded)
         then Inr (if d then rounded else np_T rounded)
         else Inl AssertionError)"
proof (cases "is_square (map (map rint) (flip_matrix fs))")
  case True
  then show ?thesis
    using assms exact_square_np_T [OF True assms]
    by (simp add: get_flip_mat_def Let_def assertion64_iff np_dot_np_T_eye)
next
  case False
  then show ?thesis by (simp add: get_flip_mat_def Let_def)
qed












lemma compute_fd_cell_nodes_flip_matrix:
  "compute_fd_cell_nodes fs = Inr fs1 \<Longrightarrow> flip_matrix fs1 = flip_matrix fs"
  by (auto simp: compute_fd_cell_nodes_def Let_def
      split: option.splits sum.splits mesh_analog_type.splits if_splits)

lemma num_firedrake_nodes_flip_matrix:
  "num_firedrake_nodes fs = Inr (n, fs1) \<Longrightarrow> flip_matrix fs1 = flip_matrix fs"
  by (auto simp: num_firedrake_nodes_def compute_fd_cell_nodes_flip_matrix
      split: option.splits sum.splits)





text \<open>
  Why the square has to be exact: as a matrix of integers the flip matrix of
  \<open>large_matrix\<close> is its own inverse, but in binary64 the square of its first entry
  loses its last bit, the product is the zero matrix, and the assertion is raised.
\<close>

lemma large_involution_fails_assert:
  "np_dot (map (map rint) (flip_matrix large_matrix)) (map (map rint) (flip_matrix large_matrix))
     = np_eye 2
   \<and> np_dot64 (map (map rint) (flip_matrix large_matrix)) (map (map rint) (flip_matrix large_matrix))
     = [[Some 0, Some 0], [Some 0, Some 0]]
   \<and> reordering_array large_matrix True = Inl AssertionError
   \<and> reordering_array large_matrix False = Inl AssertionError"
  by code_simp

subsection \<open>Scalar and vector node values\<close>

lemma take_idx_map:
  "take_idx (map f xs) idx = (case take_idx xs idx of Inl e \<Rightarrow> Inl e | Inr ys \<Rightarrow> Inr (map f ys))"
  by (auto simp: take_idx_def list_all_iff py_index_def split: if_splits)

lemma take_idx_length: "take_idx xs idx = Inr ys \<Longrightarrow> length ys = length idx"
  by (auto simp: take_idx_def split: if_splits)

lemma take_idx_same_length:
  "length xs = length ys \<Longrightarrow> take_idx xs idx = Inl e \<longleftrightarrow> take_idx ys idx = Inl e"
  by (simp add: take_idx_def)

text \<open>
  Claim C8. From firedrake to meshmode, an array with a row of \<open>vdim\<close> values per
  node is accepted exactly when an array with one value per node (of the same number
  of nodes) is, with the same error otherwise. Its result has \<open>vdim\<close> rows, one per
  vector component and as long as the reordering array, and row \<open>d\<close> is the result
  of reordering component \<open>d\<close> of the input as a scalar array: the same reordering
  array moves the nodes, and the output is laid out vector dimension first.
\<close>

theorem vector_rides_along:
  assumes "length xs = length rows"
  shows "(\<forall>e. reorder_nodes fs (Vec vdim rows) True = Inl e
              \<longleftrightarrow> reorder_nodes fs (Scal xs) True = Inl e)
    \<and> (\<forall>out fs1. reorder_nodes fs (Vec vdim rows) True = Inr (out, fs1) \<longrightarrow>
          (\<exists>arr comps. reordering_array fs True = Inr (arr, fs1)
             \<and> out = Vec (length arr) comps \<and> length comps = vdim
             \<and> (\<forall>d<vdim. length (comps ! d) = length arr
                   \<and> reorder_nodes fs (Scal (map (\<lambda>row. row ! d) rows)) True
                       = Inr (Scal (comps ! d), fs1))))"
proof (intro conjI allI impI)
  fix e
  show "reorder_nodes fs (Vec vdim rows) True = Inl e
      \<longleftrightarrow> reorder_nodes fs (Scal xs) True = Inl e"
    using assms
    by (auto simp: reorder_nodes_def take_idx_def split: sum.splits if_splits)
next
  fix out fs1
  assume run: "reorder_nodes fs (Vec vdim rows) True = Inr (out, fs1)"
  then obtain arr gathered where arr: "reordering_array fs True = Inr (arr, fs1)"
    and g: "take_idx rows arr = Inr gathered"
    and out: "out = Vec (length gathered) (np_T_copy vdim gathered)"
    by (auto simp: reorder_nodes_def split: sum.splits)
  have len: "length gathered = length arr"
    using g by (rule take_idx_length)
  have "\<forall>d<vdim. length (np_T_copy vdim gathered ! d) = length arr
      \<and> reorder_nodes fs (Scal (map (\<lambda>row. row ! d) rows)) True
          = Inr (Scal (np_T_copy vdim gathered ! d), fs1)"
    using arr g len by (simp add: reorder_nodes_def take_idx_map np_T_copy_def)
  then show "\<exists>arr comps. reordering_array fs True = Inr (arr, fs1)
             \<and> out = Vec (length arr) comps \<and> length comps = vdim
             \<and> (\<forall>d<vdim. length (comps ! d) = length arr
                   \<and> reorder_nodes fs (Scal (map (\<lambda>row. row ! d) rows)) True
                       = Inr (Scal (comps ! d), fs1))"
    using arr out len by (auto simp: np_T_copy_def)
qed

theorem vector_rides_along_witness:
  "reorder_nodes two_triangles (Vec 2 [[10, 1], [20, 2], [30, 3], [40, 4 :: int]]) True
     = Inr (Vec 6 [[10, 20, 30, 30, 20, 40], [1, 2, 3, 3, 2, 4]],
            snd (projr (reordering_array two_triangles True)))
   \<and> reorder_nodes two_triangles (Scal [10, 20, 30, 40 :: int]) True
     = Inr (Scal [10, 20, 30, 30, 20, 40], snd (projr (reordering_array two_triangles True)))
   \<and> reorder_nodes two_triangles (Scal [1, 2, 3, 4 :: int]) True
     = Inr (Scal [1, 2, 3, 3, 2, 4], snd (projr (reordering_array two_triangles True)))"
proof -
  have run: "reorder_nodes two_triangles (Vec 2 [[10, 1], [20, 2], [30, 3], [40, 4 :: int]]) True
     = Inr (Vec 6 [[10, 20, 30, 30, 20, 40], [1, 2, 3, 3, 2, 4]],
            snd (projr (reordering_array two_triangles True)))"
    by code_simp
  have len: "length [10, 20, 30, 40 :: int] = length [[10, 1], [20, 2], [30, 3], [40, 4 :: int]]"
    by simp
  from vector_rides_along [OF len, of two_triangles 2, THEN conjunct2, rule_format, OF run]
  obtain arr :: "int list" and comps
    where c: "Vec 6 [[10, 20, 30, 30, 20, 40], [1, 2, 3, 3, 2, 4 :: int]] = Vec (length arr) comps"
      and all: "\<forall>d<2. length (comps ! d) = length arr
         \<and> reorder_nodes two_triangles
             (Scal (map (\<lambda>row. row ! d) [[10, 1], [20, 2], [30, 3], [40, 4 :: int]])) True
             = Inr (Scal (comps ! d), snd (projr (reordering_array two_triangles True)))"
    by blast
  from c have comps: "comps = [[10, 20, 30, 30, 20, 40], [1, 2, 3, 3, 2, 4]]"
    by simp
  from all [rule_format, of 0] all [rule_format, of 1] run show ?thesis
    unfolding comps by simp
qed

subsection \<open>Resizing the order: the last slot wins\<close>

lemma compute_fd_cell_nodes_fields:
  assumes "compute_fd_cell_nodes fs = Inr fs1"
  shows "vertex_indices fs1 = vertex_indices fs" and "nunit_nodes fs1 = nunit_nodes fs"
    and "orientations fs1 = orientations fs"
    and "fd_to_mesh_reordering fs1 = fd_to_mesh_reordering fs"
    and "mesh_to_fd_reordering fs1 = mesh_to_fd_reordering fs"
    and "cell_node_list fs1 \<noteq> None"
  using assms
  by (auto simp: compute_fd_cell_nodes_def Let_def
      split: option.splits sum.splits mesh_analog_type.splits if_splits)

lemma compute_fd_cell_nodes_again:
  assumes "compute_fd_cell_nodes fs = Inr fs1"
  shows "compute_fd_cell_nodes fs1 = Inr fs1"
  using compute_fd_cell_nodes_fields(6) [OF assms]
  by (auto simp: compute_fd_cell_nodes_def)

lemma num_firedrake_nodes_fields:
  assumes "num_firedrake_nodes fs = Inr (n, fs1)"
  shows "vertex_indices fs1 = vertex_indices fs" and "nunit_nodes fs1 = nunit_nodes fs"
    and "orientations fs1 = orientations fs"
    and "fd_to_mesh_reordering fs1 = fd_to_mesh_reordering fs"
    and "mesh_to_fd_reordering fs1 = mesh_to_fd_reordering fs"
    and "num_meshmode_nodes fs1 = num_meshmode_nodes fs"
    and "num_firedrake_nodes fs1 = Inr (n, fs1)"
    and "compute_fd_cell_nodes fs = Inr fs1"
  using assms
  by (auto simp: num_firedrake_nodes_def num_meshmode_nodes_def compute_fd_cell_nodes_fields
      compute_fd_cell_nodes_again split: option.splits sum.splits)

lemma firedrake_cell_node_list_after:
  assumes "firedrake_cell_node_list fs = Inr (table, fs2)"
    and "compute_fd_cell_nodes fs = Inr fs1"
  shows "fs2 = fs1" and "firedrake_cell_node_list fs1 = Inr (table, fs1)"
  using assms
  by (auto simp: firedrake_cell_node_list_def compute_fd_cell_nodes_again
      split: option.splits sum.splits)

lemma assign_cell_append:
  "assign_cell new_order (xs @ ys) st =
     (case assign_cell new_order xs st of Inl e \<Rightarrow> Inl e | Inr st1 \<Rightarrow> assign_cell new_order ys st1)"
  by (induction new_order xs st rule: assign_cell.induct) auto

lemma assign_cells_concat:
  "assign_cells new_order cells st = assign_cell new_order (concat cells) st"
proof (induction cells arbitrary: st)
  case Nil
  then show ?case by (cases st) simp
next
  case (Cons nodes cells)
  then show ?case by (simp add: assign_cell_append split: sum.splits)
qed

lemma assign_cell_result:
  assumes "assign_cell new_order xs (i, a) = Inr (i1, a1)"
  shows "i1 = i + length xs \<and> length a1 = length a
    \<and> (\<forall>p<length xs. xs ! p < length a \<and> i + p < length new_order)
    \<and> (\<forall>f. f \<notin> set xs \<longrightarrow> a1 ! f = a ! f)
    \<and> (\<forall>p<length xs. (\<forall>q. p < q \<and> q < length xs \<longrightarrow> xs ! q \<noteq> xs ! p)
           \<longrightarrow> a1 ! (xs ! p) = int32 (new_order ! (i + p)))"
  using assms
proof (induction xs arbitrary: i a)
  case Nil
  then show ?case by simp
next
  case (Cons x xs)
  from Cons.prems have ok: "i < length new_order" "x < length a"
    and rest: "assign_cell new_order xs (Suc i, a[x := int32 (new_order ! i)]) = Inr (i1, a1)"
    by (auto split: if_splits)
  note ih = Cons.IH [OF rest]
  have keep: "\<forall>f. f \<notin> set xs \<longrightarrow> a1 ! f = (a[x := int32 (new_order ! i)]) ! f"
    using ih by blast
  have later: "\<forall>p<length xs. (\<forall>q. p < q \<and> q < length xs \<longrightarrow> xs ! q \<noteq> xs ! p)
           \<longrightarrow> a1 ! (xs ! p) = int32 (new_order ! (Suc i + p))"
    using ih by blast
  have bounds: "\<forall>p<length xs. xs ! p < length a \<and> Suc i + p < length new_order"
    using ih by simp
  show ?case
  proof (intro conjI allI impI)
    show "i1 = i + length (x # xs)" using ih by simp
    show "length a1 = length a" using ih by simp
  next
    fix p assume "p < length (x # xs)"
    then show "(x # xs) ! p < length a" using ok bounds by (cases p) auto
  next
    fix p assume "p < length (x # xs)"
    then show "i + p < length new_order" using ok bounds by (cases p) auto
  next
    fix f assume "f \<notin> set (x # xs)"
    then show "a1 ! f = a ! f" using keep by simp
  next
    fix p
    assume p: "p < length (x # xs)"
      and last: "\<forall>q. p < q \<and> q < length (x # xs) \<longrightarrow> (x # xs) ! q \<noteq> (x # xs) ! p"
    show "a1 ! ((x # xs) ! p) = int32 (new_order ! (i + p))"
    proof (cases p)
      case 0
      have "x \<notin> set xs"
      proof
        assume "x \<in> set xs"
        then obtain q where "q < length xs" "xs ! q = x" by (auto simp: in_set_conv_nth)
        then show False using last 0 by (auto dest: spec [of _ "Suc q"])
      qed
      then show ?thesis using keep ok 0 by simp
    next
      case (Suc p')
      have "\<forall>q. p' < q \<and> q < length xs \<longrightarrow> xs ! q \<noteq> xs ! p'"
      proof (intro allI impI)
        fix q assume "p' < q \<and> q < length xs"
        then show "xs ! q \<noteq> xs ! p'" using last Suc by (auto dest: spec [of _ "Suc q"])
      qed
      then show ?thesis using later p Suc by simp
    qed
  qed
qed

lemma count_list_one_distinct:
  assumes "count_list xs (xs ! p) = 1" and "p < length xs" and "q < length xs" and "p \<noteq> q"
  shows "xs ! q \<noteq> xs ! p"
  using assms
proof (induction xs arbitrary: p q)
  case Nil
  then show ?case by simp
next
  case (Cons a xs)
  show ?case
  proof (cases p)
    case 0
    with Cons.prems have "count_list xs a = 0" by simp
    then have "a \<notin> set xs" by (simp add: count_list_0_iff)
    moreover from Cons.prems 0 obtain q' where "q = Suc q'" "q' < length xs"
      by (cases q) auto
    ultimately show ?thesis using 0 by (auto simp: in_set_conv_nth)
  next
    case (Suc p')
    show ?thesis
    proof (cases q)
      case 0
      with Cons.prems Suc have "a \<noteq> xs ! p'"
        by (auto simp: count_list_0_iff split: if_splits)
      then show ?thesis using 0 Suc by simp
    next
      case q: (Suc q')
      from Cons.prems Suc have "count_list xs (xs ! p') = 1"
        by (auto simp: count_list_0_iff split: if_splits)
      then show ?thesis using Cons.IH [of p' q'] Cons.prems Suc q by simp
    qed
  qed
qed

lemma nth_concat_uniform:
  assumes "\<forall>r\<in>set rows. length r = c" and "p < length rows * c"
  shows "concat rows ! p = rows ! (p div c) ! (p mod c)"
  using assms
proof (induction rows arbitrary: p)
  case Nil
  then show ?case by simp
next
  case (Cons r rows)
  then have c: "0 < c" by (cases c) auto
  show ?case
  proof (cases "p < c")
    case True
    then show ?thesis using Cons.prems by (simp add: nth_append)
  next
    case False
    then obtain m where m: "p = m + c" by (metis le_add_diff_inverse2 not_less)
    then have "m < length rows * c" using Cons.prems by simp
    then have "concat rows ! m = rows ! (m div c) ! (m mod c)"
      using Cons.IH [of m] Cons.prems by simp
    then show ?thesis using m c Cons.prems by (simp add: nth_append)
  qed
qed

lemma length_concat_uniform:
  "\<forall>r\<in>set rows. length r = c \<Longrightarrow> length (concat rows) = length rows * c"
  by (induction rows) auto

lemma flip_nodes_length:
  assumes "flip_nodes M orient rows = Inr flipped"
  shows "length flipped = length rows"
    and "\<forall>r\<in>set rows. length r = c \<Longrightarrow> \<forall>r\<in>set flipped. length r = c"
proof -
  from assms have lo: "length orient = length rows"
    and lr: "\<forall>r\<in>set rows. length r = length M"
    and fl: "flipped = map2 (\<lambda>ori row. if ori < 0 then mat_vec M row else row) orient rows"
    by (auto simp: flip_nodes_def list_all_iff split: if_splits)
  show "length flipped = length rows" using lo fl by simp
  assume c: "\<forall>r\<in>set rows. length r = c"
  show "\<forall>r\<in>set flipped. length r = c"
  proof
    fix r assume "r \<in> set flipped"
    then obtain ori row where "(ori, row) \<in> set (zip orient rows)"
      and r: "r = (if ori < 0 then mat_vec M row else row)"
      using fl by auto
    then have "row \<in> set rows" by (auto dest: set_zip_rightD)
    then show "length r = c" using r c lr by (auto simp: mat_vec_def)
  qed
qed

lemma reshape2_rows:
  assumes "reshape2 xs r c = Inr rows"
  shows "length rows = r" and "\<forall>row\<in>set rows. length row = c"
    and "e < r \<Longrightarrow> i < c \<Longrightarrow> rows ! e ! i = xs ! (e * c + i)"
proof -
  from assms have len: "r * c = length xs"
    and rows: "rows = map (\<lambda>e. take c (drop (e * c) xs)) [0..<r]"
    by (auto simp: reshape2_def split: if_splits)
  show "length rows = r" using rows by simp
  show "\<forall>row\<in>set rows. length row = c"
  proof
    fix row assume "row \<in> set rows"
    then obtain e where e: "e < r" and row: "row = take c (drop (e * c) xs)"
      using rows by auto
    from e have "Suc e * c \<le> r * c" by (intro mult_le_mono1) simp
    then have "e * c + c \<le> length xs" using len by simp
    then show "length row = c" using row by simp
  qed
  assume e: "e < r" and i: "i < c"
  from e have "Suc e * c \<le> r * c" by (intro mult_le_mono1) simp
  then have "e * c + c \<le> length xs" using len by simp
  then show "rows ! e ! i = xs ! (e * c + i)" using rows e i by simp
qed

lemma mesh_order_nth:
  assumes "mesh_order fs = Inr new_order"
  shows "length new_order = num_meshmode_nodes fs"
    and "p < length new_order \<Longrightarrow> 0 \<le> orientations fs ! (p div nunit_nodes fs)
      \<Longrightarrow> new_order ! p = int p"
proof -
  let ?c = "nunit_nodes fs" and ?N = "num_meshmode_nodes fs"
  from assms obtain M rows flipped where c: "0 < ?c"
    and rs: "reshape2 (arange ?N) (?N div ?c) ?c = Inr rows"
    and fl: "flip_nodes M (orientations fs) rows = Inr flipped"
    and B: "new_order = concat flipped"
    by (auto simp: mesh_order_def split: sum.splits if_splits)
  have k: "?N div ?c = length (vertex_indices fs)"
    using c by (simp add: num_meshmode_nodes_def)
  note rr = reshape2_rows [OF rs]
  have lf: "length flipped = length (vertex_indices fs)"
    using flip_nodes_length(1) [OF fl] rr(1) k by simp
  have uf: "\<forall>r\<in>set flipped. length r = ?c"
    using flip_nodes_length(2) [OF fl] rr(2) by blast
  show len: "length new_order = ?N"
    using B length_concat_uniform [OF uf] lf by (simp add: num_meshmode_nodes_def)
  assume p: "p < length new_order" and pos: "0 \<le> orientations fs ! (p div ?c)"
  have pN: "p < length flipped * ?c" using p len lf by (simp add: num_meshmode_nodes_def)
  then have e: "p div ?c < length rows"
    using lf rr(1) k c by (simp add: less_mult_imp_div_less)
  have "new_order ! p = flipped ! (p div ?c) ! (p mod ?c)"
    using B nth_concat_uniform [OF uf pN] by simp
  also have "flipped ! (p div ?c) = rows ! (p div ?c)"
    using fl e pos by (auto simp: flip_nodes_def split: if_splits)
  also have "rows ! (p div ?c) ! (p mod ?c) = arange ?N ! (p div ?c * ?c + p mod ?c)"
    using rr(3) [of "p div ?c" "p mod ?c"] e rr(1) c by simp
  also have "\<dots> = int p"
    using p len by (simp add: arange_def)
  finally show "new_order ! p = int p" .
qed

lemma int32_id: "0 \<le> v \<Longrightarrow> v < 2 ^ 31 \<Longrightarrow> int32 v = v"
  unfolding int32_def by (simp add: signed_take_bit_int_eq_self sint_sbintrunc')

lemma py_index_nonneg: "0 \<le> i \<Longrightarrow> py_index n i = Some j \<Longrightarrow> j = nat i"
  by (auto simp: py_index_def split: if_splits)

text \<open>
  Claim C2. From meshmode to firedrake with unequal node counts, let \<open>p\<close> be a slot
  of the cell node list (in the order the loops visit it) that is the only slot of
  its firedrake node, or the last one. The result at that node is the input at the
  index the resized order holds there, which is the entry \<open>p\<close> of the order before
  resizing, stored as a 32-bit integer: no other slot contributes, nothing is
  averaged. When that entry fits (it is a meshmode node number below \<open>2^31\<close>) the
  result is the input at that meshmode node, and for a slot of a cell that is not
  flipped this is the input at \<open>p\<close> itself. The result is a function of the input,
  so it is the same on every run.
\<close>

theorem last_slot_wins:
  assumes run: "reorder_nodes fs (Scal ys) False = Inr (Scal zs, fs')"
    and fresh: "mesh_to_fd_reordering fs = None"
    and n: "num_firedrake_nodes fs = Inr (n, fs1)"
    and collapse: "n \<noteq> num_meshmode_nodes fs"
    and t: "firedrake_cell_node_list fs = Inr (table, fs2)"
    and B: "mesh_order fs = Inr new_order"
    and p: "p < length (concat table)"
    and last: "count_list (concat table) (concat table ! p) = 1
      \<or> (\<forall>q. p < q \<and> q < length (concat table) \<longrightarrow> concat table ! q \<noteq> concat table ! p)"
  shows "length zs = n \<and> concat table ! p < n \<and> p < length new_order
    \<and> zs ! (concat table ! p) = ys ! the (py_index (length ys) (int32 (new_order ! p)))
    \<and> (0 \<le> new_order ! p \<and> new_order ! p < 2 ^ 31 \<longrightarrow>
          zs ! (concat table ! p) = ys ! nat (new_order ! p))
    \<and> (0 \<le> orientations fs ! (p div nunit_nodes fs) \<longrightarrow> new_order ! p = int p)"
proof -
  note nf = num_firedrake_nodes_fields [OF n]
  note ta = firedrake_cell_node_list_after [OF t nf(8)]
  from run fresh B n collapse nf ta obtain arr i1 where
    loop: "assign_cells new_order table (0, replicate n 0) = Inr (i1, arr)"
    and gather: "take_idx ys arr = Inr zs"
    by (auto simp: reorder_nodes_def reordering_array_def mesh_to_fd_order_def
        resize_order_def split: sum.splits if_splits)
  note res = assign_cell_result [OF loop [unfolded assign_cells_concat]]
  have la: "length arr = n" using res by simp
  have lasts: "\<forall>q. p < q \<and> q < length (concat table) \<longrightarrow> concat table ! q \<noteq> concat table ! p"
    using last p count_list_one_distinct [of "concat table" p] by (metis nat_neq_iff)
  have fp: "concat table ! p < n" and pB: "p < length new_order"
    using res p by auto
  have arr: "arr ! (concat table ! p) = int32 (new_order ! p)"
    using res p lasts by simp
  have lz: "length zs = n" using gather la by (auto simp: take_idx_def split: if_splits)
  have ok: "py_index (length ys) (arr ! (concat table ! p)) \<noteq> None"
    and z: "zs ! (concat table ! p) = ys ! the (py_index (length ys) (arr ! (concat table ! p)))"
    using gather fp la by (auto simp: take_idx_def list_all_length split: if_splits)
  have direct: "zs ! (concat table ! p) = ys ! nat (new_order ! p)"
    if "0 \<le> new_order ! p \<and> new_order ! p < 2 ^ 31"
  proof -
    from that have "int32 (new_order ! p) = new_order ! p" by (simp add: int32_id)
    with ok arr obtain j where "py_index (length ys) (new_order ! p) = Some j" by auto
    then show ?thesis using z arr that \<open>int32 (new_order ! p) = new_order ! p\<close>
      by (auto dest: py_index_nonneg)
  qed
  show ?thesis
    using lz fp pB z arr direct mesh_order_nth(2) [OF B pB] by simp
qed

theorem last_slot_wins_witness:
  "reorder_nodes two_triangles (Scal [10, 20, 30, 40, 50, 60 :: int]) False
     = Inr (Scal [10, 50, 40, 60], snd (projr (reorder_nodes two_triangles (Scal [10, 20, 30, 40, 50, 60 :: int]) False)))
   \<and> concat [[0, 1, 2], [1, 2, 3 :: nat]] ! 4 = 2
   \<and> mesh_order two_triangles = Inr [0, 1, 2, 4, 3, 5]
   \<and> [10, 50, 40, 60 :: int] ! 2 = [10, 20, 30, 40, 50, 60] ! 3"
proof -
  let ?ys = "[10, 20, 30, 40, 50, 60 :: int]"
  have run: "reorder_nodes two_triangles (Scal ?ys) False
     = Inr (Scal [10, 50, 40, 60], snd (projr (reorder_nodes two_triangles (Scal ?ys) False)))"
    by code_simp
  have fresh: "mesh_to_fd_reordering two_triangles = None" by code_simp
  have n: "num_firedrake_nodes two_triangles
     = Inr (4, snd (projr (num_firedrake_nodes two_triangles)))" by code_simp
  have collapse: "4 \<noteq> num_meshmode_nodes two_triangles" by code_simp
  have t: "firedrake_cell_node_list two_triangles
     = Inr ([[0, 1, 2], [1, 2, 3]], snd (projr (firedrake_cell_node_list two_triangles)))"
    by code_simp
  have B: "mesh_order two_triangles = Inr [0, 1, 2, 4, 3, 5]" by code_simp
  have p: "4 < length (concat [[0, 1, 2], [1, 2, 3 :: nat]])" by simp
  let ?flat = "concat [[0, 1, 2], [1, 2, 3 :: nat]]"
  have last: "count_list ?flat (?flat ! 4) = 1
      \<or> (\<forall>q. 4 < q \<and> q < length ?flat \<longrightarrow> ?flat ! q \<noteq> ?flat ! 4)"
    by (auto simp: less_Suc_eq numeral_eq_Suc)
  from last_slot_wins [OF run fresh n collapse t B p last] run B show ?thesis
    by simp
qed

subsection \<open>The round trip\<close>

lemma zero_one_sum_zero:
  fixes r :: "int list"
  assumes "\<forall>v\<in>set r. v = 0 \<or> v = 1" and "sum_list r = 0"
  shows "\<forall>v\<in>set r. v = 0"
proof -
  have "\<And>v. v \<in> set r \<Longrightarrow> 0 \<le> v" using assms(1) by auto
  then show ?thesis using assms(2) by (simp add: sum_list_nonneg_eq_0_iff)
qed

lemma perm_row_unit:
  assumes "is_perm_row r"
  shows "\<exists>j<length r. \<forall>i<length r. r ! i = (if i = j then 1 else 0)"
  using assms
proof (induction r)
  case Nil
  then show ?case by (simp add: is_perm_row_def)
next
  case (Cons a r)
  then have a: "a = 0 \<or> a = 1" and zo: "\<forall>v\<in>set r. v = 0 \<or> v = 1"
    and s: "a + sum_list r = 1"
    by (auto simp: is_perm_row_def list_all_iff)
  show ?case
  proof (cases "a = 1")
    case True
    then have "sum_list r = 0" using s by simp
    then have "\<forall>v\<in>set r. v = 0" using zo by (rule zero_one_sum_zero [rotated])
    then have "\<forall>i<length (a # r). (a # r) ! i = (if i = 0 then 1 else 0)"
      using True by (auto simp: nth_Cons')
    then show ?thesis by (intro exI [of _ 0]) simp
  next
    case False
    then have "is_perm_row r" using a s zo by (simp add: is_perm_row_def list_all_iff)
    then obtain j where j: "j < length r" "\<forall>i<length r. r ! i = (if i = j then 1 else 0)"
      using Cons.IH by blast
    have "\<forall>i<length (a # r). (a # r) ! i = (if i = Suc j then 1 else 0)"
      using j False a by (auto simp: nth_Cons')
    then show ?thesis using j(1) by (intro exI [of _ "Suc j"]) simp
  qed
qed

lemma dot_vec_unit:
  fixes r v :: "int list"
  assumes "length v = length r" and "j < length r"
    and "\<forall>i<length r. r ! i = (if i = j then 1 else 0)"
  shows "dot_vec r v = v ! j"
proof -
  have "dot_vec r v = (\<Sum>i = 0..<length r. r ! i * v ! i)"
    using assms(1) by (simp add: dot_vec_def sum_list_sum_nth)
  also have "\<dots> = (\<Sum>i = 0..<length r. if i = j then v ! j else 0)"
    using assms(3) by (intro sum.cong) auto
  also have "\<dots> = v ! j"
    using assms(2) by simp
  finally show ?thesis .
qed

lemma abs_dot_unit:
  fixes r v :: "int list"
  assumes "length v = length r" and "j < length r"
    and "\<forall>i<length r. r ! i = (if i = j then 1 else 0)"
  shows "abs_dot r v = \<bar>v ! j\<bar>"
proof -
  have "abs_dot r v = (\<Sum>i = 0..<length r. \<bar>r ! i * v ! i\<bar>)"
    using assms(1) by (simp add: abs_dot_def sum_list_sum_nth)
  also have "\<dots> = (\<Sum>i = 0..<length r. if i = j then \<bar>v ! j\<bar> else 0)"
    using assms(3) by (intro sum.cong) auto
  also have "\<dots> = \<bar>v ! j\<bar>"
    using assms(2) by simp
  finally show ?thesis .
qed

text \<open>The square of a permutation matrix is exact: every sum has a single product, 0 or 1.\<close>

lemma perm_matrix_exact_square:
  assumes "is_perm_matrix M"
  shows "exact_square M"
proof -
  have rows: "\<forall>i<length M. length (M ! i) = length M \<and> is_perm_row (M ! i)"
    using assms by (simp add: is_perm_matrix_def list_all_length)
  have "abs_dot (M ! i) (map (\<lambda>s. s ! j) M) < 2 ^ 53"
    if i: "i < length M" and j: "j < length M" for i j
  proof -
    from rows i perm_row_unit [of "M ! i"] obtain k where k: "k < length M"
      and unit: "\<forall>l<length M. M ! i ! l = (if l = k then 1 else 0)"
      by auto
    have "abs_dot (M ! i) (map (\<lambda>s. s ! j) M) = \<bar>map (\<lambda>s. s ! j) M ! k\<bar>"
      by (rule abs_dot_unit) (use rows i k unit in auto)
    also have "\<dots> = \<bar>M ! k ! j\<bar>" using k by simp
    also have "\<dots> \<le> 1"
    proof -
      have "is_perm_row (M ! k)" "j < length (M ! k)" using rows k j by simp_all
      then have "M ! k ! j = 0 \<or> M ! k ! j = 1"
        by (auto simp: is_perm_row_def list_all_length)
      then show ?thesis by auto
    qed
    finally show ?thesis by simp
  qed
  then show ?thesis
    by (simp add: exact_square_def list_all_length)
qed

text \<open>A permutation matrix that is its own inverse moves unit node \<open>i\<close> to \<open>s i\<close> and back.\<close>

lemma perm_matrix_involution:
  assumes pm: "is_perm_matrix M" and inv: "np_dot M M = np_eye (length M)"
  shows "\<exists>s. (\<forall>i<length M. s i < length M \<and> s (s i) = i
            \<and> (\<forall>j<length M. M ! i ! j = (if j = s i then 1 else 0)))"
proof -
  let ?c = "length M"
  have rows: "\<forall>i<?c. length (M ! i) = ?c \<and> is_perm_row (M ! i)"
    using pm by (simp add: is_perm_matrix_def list_all_length)
  have "\<forall>i<?c. \<exists>j. j < ?c \<and> (\<forall>l<?c. M ! i ! l = (if l = j then 1 else 0))"
  proof (intro allI impI)
    fix i assume "i < ?c"
    with rows perm_row_unit [of "M ! i"] show "\<exists>j. j < ?c \<and> (\<forall>l<?c. M ! i ! l = (if l = j then 1 else 0))"
      by auto
  qed
  then obtain s where s: "\<forall>i<?c. s i < ?c \<and> (\<forall>l<?c. M ! i ! l = (if l = s i then 1 else 0))"
    by (auto simp: choice_iff')
  have "s (s i) = i" if i: "i < ?c" for i
  proof -
    have si: "s i < ?c" using s i by simp
    have "np_dot M M ! i ! i = dot_vec (M ! i) (map (\<lambda>r. r ! i) M)"
      using i by (simp add: np_dot_def)
    also have "\<dots> = map (\<lambda>r. r ! i) M ! s i"
      using rows s i si by (intro dot_vec_unit) auto
    also have "\<dots> = M ! s i ! i" using si by simp
    finally have "M ! s i ! i = 1" using inv i by (simp add: np_eye_def)
    then show ?thesis using s si i by (auto split: if_splits)
  qed
  then show ?thesis using s by (intro exI [of _ s]) simp
qed

lemma perm_matrix_symmetric:
  assumes pm: "is_perm_matrix M" and inv: "np_dot M M = np_eye (length M)"
  shows "np_T M = M"
proof -
  from perm_matrix_involution [OF assms] obtain s where
    s: "\<forall>i<length M. s i < length M \<and> s (s i) = i
            \<and> (\<forall>j<length M. M ! i ! j = (if j = s i then 1 else 0))"
    by blast
  have rows: "\<forall>i<length M. length (M ! i) = length M"
    using pm by (simp add: is_perm_matrix_def list_all_length)
  show ?thesis
  proof (rule nth_equalityI)
    show "length (np_T M) = length M" by (simp add: np_T_def)
  next
    fix i assume "i < length (np_T M)"
    then have i: "i < length M" by (simp add: np_T_def)
    show "np_T M ! i = M ! i"
    proof (rule nth_equalityI)
      show "length (np_T M ! i) = length (M ! i)" using i rows by (simp add: np_T_def)
    next
      fix j assume "j < length (np_T M ! i)"
      then have j: "j < length M" using i by (simp add: np_T_def)
      have "np_T M ! i ! j = M ! j ! i" using i j by (simp add: np_T_def)
      also have "\<dots> = (if i = s j then 1 else 0)" using s i j by simp
      also have "\<dots> = (if j = s i then 1 else 0)" using s i j by auto
      also have "\<dots> = M ! i ! j" using s i j by simp
      finally show "np_T M ! i ! j = M ! i ! j" .
    qed
  qed
qed

lemma perm_matrix_mat_vec:
  fixes M :: "int list list"
  assumes "\<forall>i<length M. s i < length M \<and> (\<forall>j<length M. M ! i ! j = (if j = s i then 1 else 0))"
    and "\<forall>i<length M. length (M ! i) = length M"
    and "length v = length M"
  shows "mat_vec M v = map (\<lambda>i. v ! s i) [0..<length M]"
proof (rule nth_equalityI)
  show "length (mat_vec M v) = length (map (\<lambda>i. v ! s i) [0..<length M])"
    by (simp add: mat_vec_def)
next
  fix i assume "i < length (mat_vec M v)"
  then have i: "i < length M" by (simp add: mat_vec_def)
  have "mat_vec M v ! i = dot_vec (M ! i) v" using i by (simp add: mat_vec_def)
  also have "\<dots> = v ! s i"
    by (rule dot_vec_unit) (use assms i in auto)
  finally show "mat_vec M v ! i = map (\<lambda>i. v ! s i) [0..<length M] ! i"
    using i by simp
qed

lemma compute_fd_cell_nodes_cached:
  "cell_node_list fs \<noteq> None \<Longrightarrow> compute_fd_cell_nodes fs = Inr fs"
  by (auto simp: compute_fd_cell_nodes_def)

lemma num_firedrake_nodes_cached:
  assumes "num_firedrake_nodes fs = Inr (n, fs1)"
  shows "cell_node_list fs1 \<noteq> None" and "num_fdnodes fs1 = Some n"
  using assms
  by (auto simp: num_firedrake_nodes_def dest: compute_fd_cell_nodes_fields(6)
      split: sum.splits option.splits)

lemma num_firedrake_nodes_of_cache:
  "cell_node_list fs \<noteq> None \<Longrightarrow> num_fdnodes fs = Some n \<Longrightarrow> num_firedrake_nodes fs = Inr (n, fs)"
  by (simp add: num_firedrake_nodes_def compute_fd_cell_nodes_cached)

lemma length_identity_table: "length (identity_table k c) = k"
  by (simp add: identity_table_def)

lemma identity_table_uniform:
  "\<forall>r\<in>set (map (map int) (identity_table k c)). length r = c"
  by (auto simp: identity_table_def)

lemma identity_table_nth:
  "e < k \<Longrightarrow> i < c \<Longrightarrow> map (map int) (identity_table k c) ! e ! i = int (e * c + i)"
  by (simp add: identity_table_def)

lemma take_table_identity:
  "take_table (arange (k * c)) (identity_table k c) = Inr (map (map int) (identity_table k c))"
proof -
  have "e * c + i < k * c" if "e < k" "i < c" for e i
  proof -
    from that have "Suc e * c \<le> k * c" by (intro mult_le_mono1) simp
    then show ?thesis using that by simp
  qed
  then have "\<forall>row\<in>set (identity_table k c). \<forall>j\<in>set row. j < k * c"
    by (auto simp: identity_table_def) (metis le_add_diff_inverse nat_add_left_cancel_less)
  then show ?thesis
    by (auto simp: take_table_def list_all_iff arange_def)
qed

lemma reshape2_identity:
  "reshape2 (arange (k * c)) k c = Inr (map (map int) (identity_table k c))"
proof -
  have "take c (drop (e * c) (map int [0..<k * c])) = map int [e * c..<e * c + c]"
    if "e < k" for e
  proof -
    from that have "Suc e * c \<le> k * c" by (intro mult_le_mono1) simp
    then have "e * c + c \<le> k * c" by simp
    then show ?thesis by (simp add: take_map drop_map)
  qed
  then show ?thesis
    by (simp add: reshape2_def arange_def identity_table_def)
qed

lemma flipped_identity:
  fixes M :: "int list list"
  assumes s: "\<forall>i<c. s i < c \<and> s (s i) = i \<and> (\<forall>j<c. M ! i ! j = (if j = s i then 1 else 0))"
    and lM: "length M = c" and rM: "\<forall>i<c. length (M ! i) = c"
    and lo: "length orient = k"
  shows "\<exists>P. flip_nodes M orient (map (map int) (identity_table k c)) = Inr P
    \<and> length (concat P) = k * c
    \<and> (\<forall>e<k. \<forall>i<c. concat P ! (e * c + i) = int (e * c + (if orient ! e < 0 then s i else i)))"
proof -
  let ?rows = "map (map int) (identity_table k c)"
  let ?P = "map2 (\<lambda>ori row. if ori < 0 then mat_vec M row else row) orient ?rows"
  note it = length_identity_table [of k c] identity_table_uniform [of k c]
  have fl: "flip_nodes M orient ?rows = Inr ?P"
    using lo it lM by (simp add: flip_nodes_def list_all_iff)
  have uP: "\<forall>r\<in>set ?P. length r = c"
    using flip_nodes_length(2) [OF fl] it(2) by blast
  have lP: "length ?P = k" using lo it(1) by simp
  have len: "length (concat ?P) = k * c"
    using length_concat_uniform [OF uP] lP by simp
  have nth: "concat ?P ! (e * c + i) = int (e * c + (if orient ! e < 0 then s i else i))"
    if e: "e < k" and i: "i < c" for e i
  proof -
    have "Suc e * c \<le> k * c" using e by (intro mult_le_mono1) simp
    then have lt: "e * c + i < length ?P * c" using i lP by simp
    have "concat ?P ! (e * c + i) = ?P ! e ! i"
      using nth_concat_uniform [OF uP lt] i by simp
    also have "\<dots> = int (e * c + (if orient ! e < 0 then s i else i))"
    proof (cases "orient ! e < 0")
      case True
      have lr: "length (?rows ! e) = length M" using it(2) e lM it(1) by simp
      have "mat_vec M (?rows ! e) = map (\<lambda>i. (?rows ! e) ! s i) [0..<length M]"
        by (rule perm_matrix_mat_vec [where s = s]) (use s lM rM lr in auto)
      then have "?P ! e ! i = ?rows ! e ! s i"
        using True e i lo it(1) lM by simp
      then show ?thesis using True identity_table_nth [of e k "s i" c] e i s by simp
    next
      case False
      then have "?P ! e ! i = ?rows ! e ! i" using e lo it(1) by simp
      then show ?thesis using False identity_table_nth [of e k i c] e i by simp
    qed
    finally show ?thesis .
  qed
  show ?thesis using fl len nth by blast
qed

lemma involution_gather:
  assumes lP: "length P = n" and lx: "length x = n"
    and P: "\<forall>m<n. 0 \<le> P ! m \<and> P ! m < int n \<and> P ! nat (P ! m) = int m"
  shows "take_idx x P = Inr (map (\<lambda>i. x ! nat i) P)"
    and "take_idx (map (\<lambda>i. x ! nat i) P) P = Inr x"
    and "take_idx P P = Inr (arange n)"
proof -
  have idx: "py_index n i = Some (nat i)" if "i \<in> set P" for i
    using that P lP by (auto simp: in_set_conv_nth py_index_def)
  have conv: "take_idx ys P = Inr (map (\<lambda>i. ys ! nat i) P)" if "length ys = n" for ys :: "'b list"
    using idx that by (simp add: take_idx_def list_all_iff)
  show "take_idx x P = Inr (map (\<lambda>i. x ! nat i) P)"
    using lx by (rule conv)
  have "map (\<lambda>i. map (\<lambda>i. x ! nat i) P ! nat i) P = x"
  proof (rule nth_equalityI)
    show "length (map (\<lambda>i. map (\<lambda>i. x ! nat i) P ! nat i) P) = length x"
      using lP lx by simp
  next
    fix m assume "m < length (map (\<lambda>i. map (\<lambda>i. x ! nat i) P ! nat i) P)"
    then have m: "m < n" using lP by simp
    then have "nat (P ! m) < n" using P by auto
    then show "map (\<lambda>i. map (\<lambda>i. x ! nat i) P ! nat i) P ! m = x ! m"
      using m lP P by simp
  qed
  then show "take_idx (map (\<lambda>i. x ! nat i) P) P = Inr x"
    using conv [of "map (\<lambda>i. x ! nat i) P"] lP by simp
  have "map (\<lambda>i. P ! nat i) P = arange n"
  proof (rule nth_equalityI)
    show "length (map (\<lambda>i. P ! nat i) P) = length (arange n)"
      using lP by (simp add: arange_def)
  next
    fix m assume "m < length (map (\<lambda>i. P ! nat i) P)"
    then have "m < n" using lP by simp
    then show "map (\<lambda>i. P ! nat i) P ! m = arange n ! m"
      using lP P by (simp add: arange_def)
  qed
  then show "take_idx P P = Inr (arange n)"
    using conv [of P] lP by simp
qed

text \<open>
  Claim C1, as the code has it. Take a space with equal node counts whose cell node
  list is in cell-by-cell order and whose rounded flip matrix is a permutation matrix
  that is its own inverse, and an array \<open>x\<close> with one value per node. Reordering
  \<open>x\<close> from firedrake to meshmode and the result from meshmode to firedrake
  returns \<open>x\<close>, and the two cached reordering arrays compose to the identity order.
\<close>

theorem round_trip_identity_layout:
  fixes fs :: FunctionSpaceAnalog and x :: "'a list"
  defines "k \<equiv> length (vertex_indices fs)" and "c \<equiv> nunit_nodes fs"
    and "M \<equiv> map (map rint) (flip_matrix fs)"
  assumes fresh: "fd_to_mesh_reordering fs = None" "mesh_to_fd_reordering fs = None"
    and table: "firedrake_cell_node_list fs = Inr (identity_table k c, fs1)"
    and count: "num_firedrake_nodes fs = Inr (num_meshmode_nodes fs, fs1)"
    and pm: "is_perm_matrix M" and lM: "length M = c"
    and inv: "np_dot M M = np_eye c"
    and lo: "length (orientations fs) = k"
    and lx: "length x = num_meshmode_nodes fs"
    and c: "0 < c"
  shows "\<exists>y fsA fsB A B.
      reorder_nodes fs (Scal x) True = Inr (Scal y, fsA)
    \<and> reorder_nodes fsA (Scal y) False = Inr (Scal x, fsB)
    \<and> fd_to_mesh_reordering fsB = Some A \<and> mesh_to_fd_reordering fsB = Some B
    \<and> take_idx A B = Inr (arange (num_meshmode_nodes fs))"
proof -
  let ?N = "num_meshmode_nodes fs"
  have N: "?N = k * c" by (simp add: num_meshmode_nodes_def k_def c_def)
  note nf = num_firedrake_nodes_fields [OF count]
  note ta = firedrake_cell_node_list_after [OF table nf(8)]
  note nc = num_firedrake_nodes_cached [OF count]
  have fm1: "flip_matrix fs1 = flip_matrix fs"
    using count by (rule num_firedrake_nodes_flip_matrix)
  have sq: "is_square M"
    using pm by (simp add: is_perm_matrix_def is_square_def list_all_iff)
  have sym: "np_T M = M"
    using pm inv lM by (intro perm_matrix_symmetric) simp_all
  have ex: "exact_square M"
    using pm by (rule perm_matrix_exact_square)
  have gf: "get_flip_mat g d = Inr M" if "flip_matrix g = flip_matrix fs" for g d
    using that sq inv lM sym get_flip_mat_eq [of g d] ex by (simp add: M_def Let_def)
  from perm_matrix_involution [OF pm] inv lM obtain s where
    s: "\<forall>i<c. s i < c \<and> s (s i) = i \<and> (\<forall>j<c. M ! i ! j = (if j = s i then 1 else 0))"
    by auto
  have rM: "\<forall>i<c. length (M ! i) = c"
    using pm lM by (simp add: is_perm_matrix_def list_all_length)
  from flipped_identity [OF s lM rM lo] obtain F where
    fl: "flip_nodes M (orientations fs) (map (map int) (identity_table k c)) = Inr F"
    and lF: "length (concat F) = k * c"
    and nF: "\<forall>e<k. \<forall>i<c. concat F ! (e * c + i)
        = int (e * c + (if orientations fs ! e < 0 then s i else i))"
    by blast
  let ?P = "concat F"
  have P: "\<forall>m<?N. 0 \<le> ?P ! m \<and> ?P ! m < int ?N \<and> ?P ! nat (?P ! m) = int m"
  proof (intro allI impI)
    fix m assume m: "m < ?N"
    let ?e = "m div c" and ?i = "m mod c"
    define j where "j = (if orientations fs ! ?e < 0 then s ?i else ?i)"
    have e: "?e < k" using m N c by (simp add: less_mult_imp_div_less)
    have i: "?i < c" using c by simp
    have j: "j < c" and sj: "(if orientations fs ! ?e < 0 then s j else j) = ?i"
      using s i by (auto simp: j_def)
    have Pm: "?P ! m = int (?e * c + j)"
      using nF [rule_format, OF e i] by (simp add: j_def)
    have "Suc ?e * c \<le> k * c" using e by (intro mult_le_mono1) simp
    then have bound: "?e * c + j < k * c" using j by simp
    have "?P ! (?e * c + j) = int (?e * c + ?i)"
      using nF [rule_format, OF e j] sj by simp
    then have "?P ! nat (int (?e * c + j)) = int m"
      unfolding nat_int by simp
    then have again: "?P ! nat (?P ! m) = int m"
      unfolding Pm .
    have ib: "int (?e * c + j) < int ?N"
      using bound N by (simp only: of_nat_less_iff)
    have "0 \<le> ?P ! m" unfolding Pm by (rule of_nat_0_le_iff)
    moreover have "?P ! m < int ?N" unfolding Pm by (rule ib)
    ultimately show "0 \<le> ?P ! m \<and> ?P ! m < int ?N \<and> ?P ! nat (?P ! m) = int m"
      using again by blast
  qed
  have lP: "length ?P = ?N" using lF N by simp
  note ig = involution_gather [OF lP lx P]
  let ?y = "map (\<lambda>i. x ! nat i) ?P"
  let ?fsA = "fs1\<lparr>fd_to_mesh_reordering := Some ?P\<rparr>"
  let ?fsB = "?fsA\<lparr>cell_node_list := None, mesh_to_fd_reordering := Some ?P\<rparr>"
  have free1: "free_cell_node_list fs1 True = Inr fs1"
    using nf(4) fresh by (simp add: free_cell_node_list_def)
  have first: "reordering_array fs True = Inr (?P, ?fsA)"
    using fresh count gf [OF fm1] ta(2) N fl nf(3) free1
    by (simp add: reordering_array_def fd_to_mesh_order_def take_table_identity)
  have nA: "num_firedrake_nodes ?fsA = Inr (?N, ?fsA)"
    using nc by (intro num_firedrake_nodes_of_cache) simp_all
  have mmA: "num_meshmode_nodes ?fsA = ?N"
    using nf(1,2) by (simp add: num_meshmode_nodes_def)
  have mo: "mesh_order ?fsA = Inr ?P"
    using gf [of ?fsA False] fm1 c mmA N nf(2,3) fl
    by (simp add: mesh_order_def c_def reshape2_identity)
  have rs: "resize_order ?fsA ?P = Inr (?P, ?fsA)"
    using nA mmA by (simp add: resize_order_def)
  have free2: "free_cell_node_list ?fsA False = Inr (?fsA\<lparr>cell_node_list := None\<rparr>)"
    using nA by (simp add: free_cell_node_list_def)
  have second: "reordering_array ?fsA False = Inr (?P, ?fsB)"
    using nf(5) fresh mo rs free2
    by (simp add: reordering_array_def mesh_to_fd_order_def)
  have r1: "reorder_nodes fs (Scal x) True = Inr (Scal ?y, ?fsA)"
    using first ig(1) by (simp add: reorder_nodes_def)
  have r2: "reorder_nodes ?fsA (Scal ?y) False = Inr (Scal x, ?fsB)"
    using second ig(2) by (simp add: reorder_nodes_def)
  have "fd_to_mesh_reordering ?fsB = Some ?P" "mesh_to_fd_reordering ?fsB = Some ?P"
    by simp_all
  with r1 r2 ig(3) show ?thesis by blast
qed

text \<open>
  The claim as the specification states it, for every array and every space with
  equal node counts, fails twice. With equal counts the order from meshmode to
  firedrake does not read the cell node list, so on the interval whose nodes are
  numbered against the slots the round trip returns the values exchanged. And an
  array with a row per node comes back with a row per vector component, which the
  second call indexes by node: IndexError.
\<close>

theorem round_trip_fails:
  "num_firedrake_nodes swapped_interval
     = Inr (num_meshmode_nodes swapped_interval,
            swapped_interval\<lparr>cell_node_list := Some [[1, 0]], num_fdnodes := Some 2\<rparr>)
   \<and> reorder_nodes swapped_interval (Scal [10, 20 :: int]) True
     = Inr (Scal [20, 10],
            swapped_interval\<lparr>cell_node_list := Some [[1, 0]], num_fdnodes := Some 2,
              fd_to_mesh_reordering := Some [1, 0]\<rparr>)
   \<and> reorder_nodes
         (swapped_interval\<lparr>cell_node_list := Some [[1, 0]], num_fdnodes := Some 2,
            fd_to_mesh_reordering := Some [1, 0]\<rparr>)
         (Scal [20, 10 :: int]) False
     = Inr (Scal [20, 10],
            swapped_interval\<lparr>num_fdnodes := Some 2, fd_to_mesh_reordering := Some [1, 0],
              mesh_to_fd_reordering := Some [0, 1]\<rparr>)
   \<and> reorder_nodes two_intervals (Vec 1 [[10], [20], [30], [40 :: int]]) True
     = Inr (Vec 4 [[10, 20, 40, 30]],
            two_intervals\<lparr>cell_node_list := Some [[0, 1], [2, 3]], num_fdnodes := Some 4,
              fd_to_mesh_reordering := Some [0, 1, 3, 2]\<rparr>)
   \<and> reorder_nodes
         (two_intervals\<lparr>cell_node_list := Some [[0, 1], [2, 3]], num_fdnodes := Some 4,
            fd_to_mesh_reordering := Some [0, 1, 3, 2]\<rparr>)
         (Vec 4 [[10, 20, 40, 30 :: int]]) False
     = Inl IndexError"
  by code_simp

theorem round_trip_identity_layout_witness:
  "reorder_nodes two_intervals (Scal [10, 20, 30, 40 :: int]) True
     = Inr (Scal [10, 20, 40, 30],
            two_intervals\<lparr>cell_node_list := Some [[0, 1], [2, 3]], num_fdnodes := Some 4,
              fd_to_mesh_reordering := Some [0, 1, 3, 2]\<rparr>)
   \<and> (\<exists>fsB. reorder_nodes
         (two_intervals\<lparr>cell_node_list := Some [[0, 1], [2, 3]], num_fdnodes := Some 4,
            fd_to_mesh_reordering := Some [0, 1, 3, 2]\<rparr>)
         (Scal [10, 20, 40, 30 :: int]) False
       = Inr (Scal [10, 20, 30, 40], fsB))"
proof -
  let ?fs1 = "snd (projr (firedrake_cell_node_list two_intervals))"
  let ?fsA = "two_intervals\<lparr>cell_node_list := Some [[0, 1], [2, 3]], num_fdnodes := Some 4,
              fd_to_mesh_reordering := Some [0, 1, 3, 2]\<rparr>"
  have fresh: "fd_to_mesh_reordering two_intervals = None"
    "mesh_to_fd_reordering two_intervals = None"
    by code_simp+
  have table: "firedrake_cell_node_list two_intervals
      = Inr (identity_table (length (vertex_indices two_intervals)) (nunit_nodes two_intervals), ?fs1)"
    by code_simp
  have count: "num_firedrake_nodes two_intervals = Inr (num_meshmode_nodes two_intervals, ?fs1)"
    by code_simp
  have pm: "is_perm_matrix (map (map rint) (flip_matrix two_intervals))"
    by code_simp
  have lM: "length (map (map rint) (flip_matrix two_intervals)) = nunit_nodes two_intervals"
    by code_simp
  have inv: "np_dot (map (map rint) (flip_matrix two_intervals))
      (map (map rint) (flip_matrix two_intervals)) = np_eye (nunit_nodes two_intervals)"
    by code_simp
  have lo: "length (orientations two_intervals) = length (vertex_indices two_intervals)"
    by code_simp
  have lx: "length [10, 20, 30, 40 :: int] = num_meshmode_nodes two_intervals"
    by code_simp
  have c: "0 < nunit_nodes two_intervals"
    by code_simp
  have r1: "reorder_nodes two_intervals (Scal [10, 20, 30, 40 :: int]) True
     = Inr (Scal [10, 20, 40, 30], ?fsA)"
    by code_simp
  from round_trip_identity_layout [OF fresh table count pm lM inv lo lx c]
  obtain y fsA fsB where "reorder_nodes two_intervals (Scal [10, 20, 30, 40 :: int]) True = Inr (Scal y, fsA)"
    and "reorder_nodes fsA (Scal y) False = Inr (Scal [10, 20, 30, 40], fsB)"
    by blast
  with r1 show ?thesis by auto
qed

subsection \<open>Target boundary ids\<close>

lemma collect_boundary_nodes_all:
  assumes "\<forall>m\<in>set ms. boundary_nodes m = Inr (nodes m)"
  shows "\<exists>idx. collect_boundary_nodes boundary_nodes ms acc = Inr idx
    \<and> set idx = set acc \<union> (\<Union>m\<in>set ms. set (nodes m))"
  using assms
proof (induction ms arbitrary: acc)
  case Nil
  then show ?case by simp
next
  case (Cons m ms)
  from Cons.prems have "\<forall>m\<in>set ms. boundary_nodes m = Inr (nodes m)" by simp
  from Cons.IH [OF this, of "remdups (acc @ nodes m)"] obtain idx where
    "collect_boundary_nodes boundary_nodes ms (remdups (acc @ nodes m)) = Inr idx"
    and "set idx = set (remdups (acc @ nodes m)) \<union> (\<Union>m\<in>set ms. set (nodes m))"
    by blast
  moreover have "boundary_nodes m = Inr (nodes m)" using Cons.prems by simp
  ultimately show ?case
    by (intro exI [of _ idx]) (simp add: Un_assoc)
qed

lemma collect_boundary_nodes_error:
  assumes "\<exists>m\<in>set ms. \<exists>e. boundary_nodes m = Inl e"
  shows "\<exists>e. collect_boundary_nodes boundary_nodes ms acc = Inl e
    \<and> (\<exists>m\<in>set ms. boundary_nodes m = Inl e)"
  using assms
proof (induction ms arbitrary: acc)
  case Nil
  then show ?case by simp
next
  case (Cons m ms)
  show ?case
  proof (cases "boundary_nodes m")
    case (Inl e)
    then show ?thesis by (intro exI [of _ e]) simp
  next
    case (Inr ns)
    with Cons.prems have "\<exists>m\<in>set ms. \<exists>e. boundary_nodes m = Inl e" by auto
    from Cons.IH [OF this, of "remdups (acc @ ns)"] obtain e where
      "collect_boundary_nodes boundary_nodes ms (remdups (acc @ ns)) = Inl e"
      and "\<exists>m\<in>set ms. boundary_nodes m = Inl e"
      by blast
    with Inr show ?thesis by (intro exI [of _ e]) simp
  qed
qed

text \<open>
  Claim C5, as the code has it. With \<^verbatim>\<open>targets\<close> given: when some requested ids
  are exterior facet markers and some are not, the ids that are not are reported in
  one warning and the construction goes on with every requested id, the reported
  ones included: when \<^verbatim>\<open>boundary_nodes\<close> answers for each of them the target
  indices are all the nodes it gave, and when it raises for one of them the
  construction raises that error. When no requested id is an exterior facet marker
  the construction raises ValueError, "No boundary ids are exterior facet ids".
\<close>

theorem targets_every_requested_id:
  fixes unique_markers :: "int list" and boundary_nodes :: "int \<Rightarrow> error + nat list"
  defines "valid \<equiv> set unique_markers"
  shows "((\<exists>m\<in>set (requested_ids t). m \<in> valid) \<and> (\<exists>m\<in>set (requested_ids t). m \<notin> valid) \<longrightarrow>
            (\<exists>w. fst (handle_targets unique_markers boundary_nodes (Some t)) = [w]
               \<and> set w = set (requested_ids t) - valid)
            \<and> ((\<forall>m\<in>set (requested_ids t). boundary_nodes m = Inr (nodes m)) \<longrightarrow>
                 (\<exists>idx. snd (handle_targets unique_markers boundary_nodes (Some t))
                      = Inr (Some idx)
                    \<and> set idx = (\<Union>m\<in>set (requested_ids t). set (nodes m))))
            \<and> ((\<exists>m\<in>set (requested_ids t). \<exists>e. boundary_nodes m = Inl e) \<longrightarrow>
                 (\<exists>e. snd (handle_targets unique_markers boundary_nodes (Some t)) = Inl e
                    \<and> (\<exists>m\<in>set (requested_ids t). boundary_nodes m = Inl e))))
       \<and> (set (requested_ids t) \<inter> valid = {} \<longrightarrow>
            snd (handle_targets unique_markers boundary_nodes (Some t))
              = Inl (ValueError no_boundary_ids_msg))"
proof (intro conjI impI)
  assume part: "(\<exists>m\<in>set (requested_ids t). m \<in> valid) \<and> (\<exists>m\<in>set (requested_ids t). m \<notin> valid)"
  let ?tm = "remdups (requested_ids t)"
  let ?w = "filter (\<lambda>m. m \<notin> set unique_markers) ?tm"
  have not_all: "\<not> list_all (\<lambda>m. m \<in> set unique_markers) ?tm"
    using part by (auto simp: list_all_iff valid_def)
  have some: "filter (\<lambda>m. m \<in> set unique_markers) ?tm \<noteq> []"
    using part by (auto simp: filter_empty_conv valid_def)
  have warned: "fst (handle_targets unique_markers boundary_nodes (Some t)) = [?w]"
    using not_all some by (simp add: handle_targets_def Let_def)
  have run: "snd (handle_targets unique_markers boundary_nodes (Some t))
      = (case collect_boundary_nodes boundary_nodes ?tm [] of
           Inl e \<Rightarrow> Inl e | Inr indices \<Rightarrow> Inr (Some indices))"
    using some by (simp add: handle_targets_def Let_def)
  have "set ?w = set (requested_ids t) - valid" by (auto simp: valid_def)
  with warned show "\<exists>w. fst (handle_targets unique_markers boundary_nodes (Some t)) = [w]
      \<and> set w = set (requested_ids t) - valid"
    by blast
  {
    assume "\<forall>m\<in>set (requested_ids t). boundary_nodes m = Inr (nodes m)"
    then have "\<forall>m\<in>set ?tm. boundary_nodes m = Inr (nodes m)" by simp
    from collect_boundary_nodes_all [OF this, of "[]"] obtain idx where
      "collect_boundary_nodes boundary_nodes ?tm [] = Inr idx"
      and "set idx = (\<Union>m\<in>set (requested_ids t). set (nodes m))"
      by auto
    with run show "\<exists>idx. snd (handle_targets unique_markers boundary_nodes (Some t))
        = Inr (Some idx) \<and> set idx = (\<Union>m\<in>set (requested_ids t). set (nodes m))"
      by simp
  }
  {
    assume "\<exists>m\<in>set (requested_ids t). \<exists>e. boundary_nodes m = Inl e"
    then have "\<exists>m\<in>set ?tm. \<exists>e. boundary_nodes m = Inl e" by simp
    from collect_boundary_nodes_error [OF this, of "[]"] obtain e where
      "collect_boundary_nodes boundary_nodes ?tm [] = Inl e"
      and "\<exists>m\<in>set (requested_ids t). boundary_nodes m = Inl e"
      by auto
    with run show "\<exists>e. snd (handle_targets unique_markers boundary_nodes (Some t)) = Inl e
        \<and> (\<exists>m\<in>set (requested_ids t). boundary_nodes m = Inl e)"
      by simp
  }
next
  assume "set (requested_ids t) \<inter> valid = {}"
  then have "filter (\<lambda>m. m \<in> set unique_markers) (remdups (requested_ids t)) = []"
    by (auto simp: filter_empty_conv valid_def)
  then show "snd (handle_targets unique_markers boundary_nodes (Some t))
      = Inl (ValueError no_boundary_ids_msg)"
    by (simp add: handle_targets_def Let_def)
qed

text \<open>
  The claim as the specification states it, with the construction going on with the
  valid subset, fails. With the markers 1, 2 and 3 on the exterior facets and the ids
  1 and 5 requested, the valid subset is the id 1, whose nodes are 0 and 1; the
  construction asks for the nodes of the id 5 as well, and node 2 becomes a target.
  When \<^verbatim>\<open>boundary_nodes\<close> raises for the id 5 the construction does not go on at
  all.
\<close>

theorem invalid_id_is_not_dropped:
  "handle_targets [1, 2, 3] lenient_boundary_nodes (Some (TargetIds [1, 5]))
     = ([[5]], Inr (Some [0, 1, 2]))
   \<and> handle_targets [1, 2, 3] lenient_boundary_nodes (Some (TargetIds [1]))
     = ([], Inr (Some [0, 1]))
   \<and> handle_targets [1, 2, 3] strict_boundary_nodes (Some (TargetIds [1, 5]))
     = ([[5]], Inl (ValueError no_such_marker_msg))"
  by code_simp

theorem targets_every_requested_id_witness:
  "(\<exists>w idx. handle_targets [1, 2, 3] lenient_boundary_nodes (Some (TargetIds [1, 5]))
        = ([w], Inr (Some idx)) \<and> set w = {5} \<and> set idx = {0, 1, 2})
   \<and> (\<exists>w. handle_targets [1, 2, 3] strict_boundary_nodes (Some (TargetIds [1, 5]))
        = ([w], Inl (ValueError no_such_marker_msg)) \<and> set w = {5})
   \<and> snd (handle_targets [1, 2, 3] lenient_boundary_nodes (Some (TargetIds [5])))
     = Inl (ValueError no_boundary_ids_msg)
   \<and> snd (handle_targets [1, 2, 3] lenient_boundary_nodes (Some (TargetInt 5)))
     = Inl (ValueError no_boundary_ids_msg)"
proof -
  have req: "set (requested_ids (TargetIds [1, 5])) = {1, 5}"
    by (simp add: requested_ids_def)
  have part: "(\<exists>m\<in>set (requested_ids (TargetIds [1, 5])). m \<in> set [1, 2, 3])
      \<and> (\<exists>m\<in>set (requested_ids (TargetIds [1, 5])). m \<notin> set [1, 2, 3])"
    unfolding req by simp
  have answers: "\<forall>m\<in>set (requested_ids (TargetIds [1, 5])).
      lenient_boundary_nodes m = Inr (marked_nodes m)"
    by (simp add: lenient_boundary_nodes_def)
  have raises: "\<exists>m\<in>set (requested_ids (TargetIds [1, 5])). \<exists>e. strict_boundary_nodes m = Inl e"
    unfolding req by (simp add: strict_boundary_nodes_def)
  have only: "strict_boundary_nodes m = Inl e \<Longrightarrow> e = ValueError no_such_marker_msg" for m e
    by (auto simp: strict_boundary_nodes_def split: if_splits)
  have diff: "set (requested_ids (TargetIds [1, 5])) - set [1, 2, 3] = {5}"
    unfolding req by auto
  have union: "(\<Union>m\<in>set (requested_ids (TargetIds [1, 5])). set (marked_nodes m)) = {0, 1, 2}"
    unfolding req by (auto simp: marked_nodes_def)
  have empty: "set (requested_ids (TargetIds [5])) \<inter> set [1, 2, 3] = {}"
    "set (requested_ids (TargetInt 5)) \<inter> set [1, 2, 3] = {}"
    by (simp_all add: requested_ids_def)
  from targets_every_requested_id
    [of "TargetIds [1, 5]" "[1, 2, 3]" lenient_boundary_nodes marked_nodes,
      THEN conjunct1, rule_format, OF part]
  have a: "\<exists>w idx. handle_targets [1, 2, 3] lenient_boundary_nodes (Some (TargetIds [1, 5]))
      = ([w], Inr (Some idx)) \<and> set w = {5} \<and> set idx = {0, 1, 2}"
    using answers unfolding diff union by (auto simp: prod_eq_iff)
  from targets_every_requested_id
    [of "TargetIds [1, 5]" "[1, 2, 3]" strict_boundary_nodes marked_nodes,
      THEN conjunct1, rule_format, OF part]
  have b: "\<exists>w. handle_targets [1, 2, 3] strict_boundary_nodes (Some (TargetIds [1, 5]))
      = ([w], Inl (ValueError no_such_marker_msg)) \<and> set w = {5}"
    using raises only unfolding diff by (auto simp: prod_eq_iff)
  have c: "snd (handle_targets [1, 2, 3] lenient_boundary_nodes (Some (TargetIds [5])))
      = Inl (ValueError no_boundary_ids_msg)"
    using targets_every_requested_id
      [of "TargetIds [5]" "[1, 2, 3]" lenient_boundary_nodes marked_nodes,
        THEN conjunct2, rule_format, OF empty(1)] .
  have d: "snd (handle_targets [1, 2, 3] lenient_boundary_nodes (Some (TargetInt 5)))
      = Inl (ValueError no_boundary_ids_msg)"
    using targets_every_requested_id
      [of "TargetInt 5" "[1, 2, 3]" lenient_boundary_nodes marked_nodes,
        THEN conjunct2, rule_format, OF empty(2)] .
  show ?thesis
    using a b c d by (intro conjI)
qed

subsection \<open>The output buffer of the operator\<close>

lemma fold_update_frame:
  "length (fold (\<lambda>(i, v) d. d[i := v]) ps d) = length d
   \<and> (\<forall>i. i \<notin> fst ` set ps \<longrightarrow> fold (\<lambda>(i, v) d. d[i := v]) ps d ! i = d ! i)"
  by (induction ps arbitrary: d) (auto simp: nth_list_update)

lemma fold_fill_frame:
  "length (fold (\<lambda>i d. d[i := v]) idx d) = length d
   \<and> (\<forall>i. i \<notin> set idx \<longrightarrow> fold (\<lambda>i d. d[i := v]) idx d ! i = d ! i)"
  by (induction idx arbitrary: d) (auto simp: nth_list_update)

lemma scatter_frame:
  assumes "scatter data idx vals = Inr out"
  shows "length out = length data" and "i \<notin> set idx \<Longrightarrow> out ! i = data ! i"
proof -
  have "fst ` set (zip idx vals) \<subseteq> set idx"
    by (auto dest: set_zip_leftD)
  then have z: "i \<notin> set idx \<Longrightarrow> i \<notin> fst ` set (zip idx vals)" by blast
  show "length out = length data"
    using assms fold_update_frame [of "zip idx vals" data] fold_fill_frame [of "hd vals" idx data]
    by (auto simp: scatter_def split: if_splits)
  assume "i \<notin> set idx"
  then show "out ! i = data ! i"
    using assms z fold_update_frame [of "zip idx vals" data] fold_fill_frame [of "hd vals" idx data]
    by (auto simp: scatter_def split: if_splits)
qed

text \<open>
  Claim C6, as the code has it. With target indices, every degree of freedom that is
  not a target holds after the call what the output buffer held there before: zero
  when no result function is passed (the buffer is made and zeroed), and the entry of
  the result function when one is passed. So the non-target entries are zero when no
  result function is passed or the one passed is already zero there.
\<close>

theorem non_target_dofs_keep_buffer:
  assumes "call oc result_function kwargs = Inr out" and "target_indices oc = Some idx"
  shows "length out = (case result_function of None \<Rightarrow> out_fspace_dim oc | Some d \<Rightarrow> length d)
    \<and> (\<forall>i<length out. i \<notin> set idx \<longrightarrow>
          out ! i = (case result_function of None \<Rightarrow> 0 | Some d \<Rightarrow> d ! i))
    \<and> (result_function = None
          \<or> (\<exists>d. result_function = Some d \<and> (\<forall>i<length d. i \<notin> set idx \<longrightarrow> d ! i = 0))
        \<longrightarrow> (\<forall>i<length out. i \<notin> set idx \<longrightarrow> out ! i = 0))"
proof -
  let ?data = "case result_function of None \<Rightarrow> replicate (out_fspace_dim oc) 0 | Some d \<Rightarrow> d"
  from assms obtain result where sc: "scatter ?data idx result = Inr out"
    by (auto simp: call_def Let_def split: sum.splits)
  have len: "length out = length ?data" using scatter_frame(1) [OF sc] .
  have keep: "out ! i = ?data ! i" if "i \<notin> set idx" for i
    using scatter_frame(2) [OF sc that] .
  show ?thesis
    using len keep by (auto split: option.splits)
qed

text \<open>
  The claim as the specification states it, also for an arbitrary result function,
  fails: the entry 0 is not a target and keeps the 7 it was passed with.
\<close>

theorem supplied_buffer_not_zeroed:
  "target_indices one_target = Some [1]
   \<and> call one_target (Some [7, 7, 7]) [] = Inr [7, 5, 7]
   \<and> (0 :: nat) \<notin> set [1]
   \<and> [7, 5, 7 :: int] ! 0 \<noteq> 0"
  by code_simp

theorem non_target_dofs_keep_buffer_witness:
  "call one_target None [] = Inr [0, 5, 0]
   \<and> call one_target (Some [0, 9, 0]) [] = Inr [0, 5, 0]
   \<and> call one_target (Some [7, 7, 7]) [] = Inr [7, 5, 7]"
proof -
  have t: "target_indices one_target = Some [1]" by code_simp
  have a: "call one_target None [] = Inr [0, 5, 0]" by code_simp
  have b: "call one_target (Some [0, 9, 0]) [] = Inr [0, 5, 0]" by code_simp
  have c: "call one_target (Some [7, 7, 7]) [] = Inr [7, 5, 7]" by code_simp
  from non_target_dofs_keep_buffer [OF a t] non_target_dofs_keep_buffer [OF b t]
    non_target_dofs_keep_buffer [OF c t] a b c
  show ?thesis by simp
qed

subsection \<open>The input of a reordering is left alone\<close>

text \<open>
  Claim C10. After a call of \<^verbatim>\<open>reorder_nodes\<close> the array that was passed, and
  every other array of the caller, is what it was; the array returned is at an
  address that was free before the call, so it is not the input and shares nothing
  with it; and its content is the reordering of the input.
\<close>

theorem reorder_nodes_at_frame:
  assumes "reorder_nodes_at fs store nodes firedrake_to_meshmode = Inr (r, store1, fs1)"
    and "nodes < length store"
  shows "store1 ! nodes = store ! nodes
    \<and> (\<forall>b<length store. store1 ! b = store ! b)
    \<and> length store \<le> r \<and> r < length store1 \<and> r \<noteq> nodes
    \<and> reorder_nodes fs (store ! nodes) firedrake_to_meshmode = Inr (store1 ! r, fs1)"
  using assms
  by (auto simp: reorder_nodes_at_def reorder_nodes_def Let_def nth_append
      split: sum.splits ndarray.splits)

theorem reorder_nodes_at_frame_witness:
  "reorder_nodes_at two_triangles [Scal [10, 20, 30, 40 :: int]] 0 True
     = Inr (1, [Scal [10, 20, 30, 40], Scal [10, 20, 30, 30, 20, 40]],
            snd (projr (reordering_array two_triangles True)))
   \<and> [Scal [10, 20, 30, 40 :: int], Scal [10, 20, 30, 30, 20, 40]] ! 0 = Scal [10, 20, 30, 40]"
proof -
  have run: "reorder_nodes_at two_triangles [Scal [10, 20, 30, 40 :: int]] 0 True
     = Inr (1, [Scal [10, 20, 30, 40], Scal [10, 20, 30, 30, 20, 40]],
            snd (projr (reordering_array two_triangles True)))"
    by code_simp
  have valid: "0 < length [Scal [10, 20, 30, 40 :: int]]" by simp
  from reorder_nodes_at_frame [OF run valid] run show ?thesis by simp
qed

end
